theory Spec2Isabelle
  imports Main "HOL-Library.AList" "HOL-Library.Finite_Map" "HOL-Library.Char_ord"
    "HOL-Library.List_Lexorder"
begin

section \<open>The dongle registry of db.go\<close>

text \<open>
  The package keeps one table, \<open>dongles\<close>, in a ql database reached through
  database/sql, and offers a handful of functions over it. The functions of db.go are
  modelled one by one below, with their names. Three collaborators are outside the
  repository and are modelled as follows.
  \<^item> The storage engine. Its state is the record \<open>DB\<close>; each SQL text of db.go
    is given its relational reading as a function \<open>ql_...\<close> on that state.
  \<^item> encoding/json. \<open>json.Marshal\<close> and \<open>json.Unmarshal\<close> on a
    \<open>map[string]string\<close> are the two fields of a \<open>codec\<close>, which every
    function that touches the \<open>properties\<close> column takes as an argument. The
    library's own behaviour on such maps is the codec \<open>encoding_json\<close>.
  \<^item> The clock. Every occurrence of SQL \<open>now()\<close> is evaluated on its own, and the
    value of each is an argument of the function whose statement holds it.
\<close>

subsection \<open>Data\<close>

type_synonym time = int
type_synonym blob = string
type_synonym props = "(string, string) fmap"

text \<open>
  Go returns plain \<open>error\<close> values. They are classified here by their cause:
  \<open>ErrNoRows\<close> is \<open>sql.ErrNoRows\<close>, \<open>ScanNull\<close> the failure of
  \<open>Scan\<close> to store SQL NULL in an \<open>int\<close>, \<open>UniqueIndex\<close> the engine's
  refusal of a duplicate in a unique index, \<open>IndexExists\<close> its refusal to create an
  index that is there already, \<open>NoTable\<close> a statement naming a table that does not
  exist, \<open>Closed\<close> the use of a closed handle, and \<open>Json\<close> an error of
  encoding/json.
\<close>

datatype error = ErrNoRows | ScanNull | UniqueIndex | IndexExists | NoTable | Closed | Json

text \<open>The classes of failure the registry's contract names, and the class of each error.\<close>

datatype failure = SchemaError | ConstraintViolation | NotFound | SerializationError | StorageError

fun failure_of :: "error \<Rightarrow> failure" where
  "failure_of ErrNoRows = NotFound"
| "failure_of ScanNull = NotFound"
| "failure_of UniqueIndex = ConstraintViolation"
| "failure_of IndexExists = SchemaError"
| "failure_of NoTable = StorageError"
| "failure_of Closed = StorageError"
| "failure_of Json = SerializationError"

text \<open>
  The struct \<open>Dongle\<close>. A Go string is a sequence of bytes, as a \<open>string\<close> is
  here. \<open>TTY\<close> is a Go \<open>int\<close>; the package compares and prints it and does no
  arithmetic on it, so it is an \<open>int\<close> here and nothing wraps. A Go map is a
  finite map; a nil \<open>Properties\<close> map is \<open>None\<close>. A \<open>time.Time\<close> is an instant, a number.
\<close>

record Dongle =
  IMEI :: string
  IMSI :: string
  Path :: string
  IsSymlinked :: bool
  TTY :: int
  ATI :: string
  Properties :: "props option"
  CreatedOn :: time
  UpdatedOn :: time

text \<open>
  One row of the table created by \<open>migrationSQL\<close>, column by column. Only
  \<open>properties\<close> is ever NULL (\<open>None\<close>): every other column is written from a
  Go value or from \<open>now()\<close>.
\<close>

record row =
  imei :: string
  imsi :: string
  path :: string
  symlink :: bool
  tty :: int
  ati :: string
  properties :: "blob option"
  created_on :: time
  updated_on :: time

text \<open>
  The database behind a \<open>*sql.DB\<close>: whether the handle is closed, whether the
  table \<open>dongles\<close> and the unique index \<open>UQE_dongels\<close> exist, and the rows of
  the table in the order \<open>select *\<close> lists them.
\<close>

record DB =
  is_closed :: bool
  has_table :: bool
  has_index :: bool
  rows :: "row list"

text \<open>
  \<open>Marshal m\<close> is the encoding of a non-nil map, \<open>Unmarshal bs\<close> the value
  \<open>json.Unmarshal\<close> leaves in a nil map variable; \<open>None\<close> is the library's
  error in both.
\<close>

record codec =
  Marshal :: "props \<Rightarrow> blob option"
  Unmarshal :: "blob \<Rightarrow> props option option"

subsection \<open>encoding/json on a map of strings\<close>

text \<open>
  What \<open>json.Marshal\<close> writes for a \<open>map[string]string\<close> and what
  \<open>json.Unmarshal\<close> reads back into one, byte by byte. The library is not part of the
  repository; the definitions follow its functions \<open>appendString\<close>, \<open>unquote\<close> and
  \<open>getu4\<close> and the tables of package utf8, with their names.

  \<open>byte\<close> is the number of a byte. \<open>lead\<close> is the length a first byte announces
  (0 for a byte that starts no sequence), \<open>second_ok\<close> the range the second byte must
  lie in, \<open>cont\<close> a continuation byte. \<open>rune_width s\<close> is the number of bytes of the
  well-formed UTF-8 sequence at the head of \<open>s\<close>, or 0 where \<open>utf8.DecodeRune\<close>
  returns \<open>RuneError\<close> with width 1. \<open>valid_utf8\<close> is \<open>utf8.ValidString\<close>.
\<close>

definition byte :: "char \<Rightarrow> nat" where
  "byte c = of_char c"

definition lead :: "char \<Rightarrow> nat" where
  "lead c =
     (if 0xC2 \<le> byte c \<and> byte c \<le> 0xDF then 2
      else if 0xE0 \<le> byte c \<and> byte c \<le> 0xEF then 3
      else if 0xF0 \<le> byte c \<and> byte c \<le> 0xF4 then 4
      else 0)"

definition second_ok :: "char \<Rightarrow> char \<Rightarrow> bool" where
  "second_ok a b =
     ((if byte a = 0xE0 then 0xA0 else if byte a = 0xF0 then 0x90 else 0x80) \<le> byte b
      \<and> byte b \<le> (if byte a = 0xED then 0x9F else if byte a = 0xF4 then 0x8F else 0xBF))"

definition cont :: "char \<Rightarrow> bool" where
  "cont c = (0x80 \<le> byte c \<and> byte c \<le> 0xBF)"

definition rune_width :: "string \<Rightarrow> nat" where
  "rune_width s =
     (let n = (case s of [] \<Rightarrow> 0 | a # _ \<Rightarrow> lead a)
      in if n = 0 \<or> length s < n then 0
         else if \<not> second_ok (s ! 0) (s ! 1) then 0
         else if 3 \<le> n \<and> \<not> cont (s ! 2) then 0
         else if 4 \<le> n \<and> \<not> cont (s ! 3) then 0
         else n)"

function valid_utf8 :: "string \<Rightarrow> bool" where
  "valid_utf8 [] = True"
| "valid_utf8 (b # s) =
     (if byte b < 0x80 then valid_utf8 s
      else if rune_width (b # s) = 0 then False
      else valid_utf8 (drop (rune_width (b # s)) (b # s)))"
  by pat_completeness auto
termination
  by (relation "measure length") auto

text \<open>
  The encoder of a string, with HTML escaping on as \<open>json.Marshal\<close> has it. An ASCII
  byte is written as it is unless it is a quote, a backslash, a control character or one
  of \<open><\<close>, \<open>>\<close>, \<open>&\<close>; those get a two-character escape or the six-character
  escape \<open>u00XX\<close> behind a backslash (the two-character escapes of backspace and
  form feed are those of Go 1.22; earlier releases write the six-character ones, which
  read back the same). A byte that starts no well-formed sequence is written as the
  escape of U+FFFD: this is where a string that is not valid UTF-8 loses its bytes.
  U+2028 and U+2029 are escaped; any other well-formed sequence is copied.
\<close>

definition hex :: "nat \<Rightarrow> char" where
  "hex n = ''0123456789abcdef'' ! (n mod 16)"

definition escape :: "char \<Rightarrow> string" where
  "escape b =
     (if b = CHR 0x5C \<or> b = CHR 0x22 then [CHR 0x5C, b]
      else if b = CHR 0x08 then [CHR 0x5C, CHR ''b'']
      else if b = CHR 0x0C then [CHR 0x5C, CHR ''f'']
      else if b = CHR 0x0A then [CHR 0x5C, CHR ''n'']
      else if b = CHR 0x0D then [CHR 0x5C, CHR ''r'']
      else if b = CHR 0x09 then [CHR 0x5C, CHR ''t'']
      else if byte b < 0x20 \<or> b = CHR ''<'' \<or> b = CHR ''>'' \<or> b = CHR ''&''
        then [CHR 0x5C, CHR ''u'', CHR ''0'', CHR ''0'', hex (byte b div 16), hex (byte b mod 16)]
      else [b])"

function appendString :: "string \<Rightarrow> string" where
  "appendString [] = []"
| "appendString (b # s) =
     (if byte b < 0x80 then escape b @ appendString s
      else if rune_width (b # s) = 0
        then [CHR 0x5C, CHR ''u'', CHR ''f'', CHR ''f'', CHR ''f'', CHR ''d''] @ appendString s
      else if take 3 (b # s) = [CHR 0xE2, CHR 0x80, CHR 0xA8]
        then [CHR 0x5C, CHR ''u'', CHR ''2'', CHR ''0'', CHR ''2'', CHR ''8''] @ appendString (drop 3 (b # s))
      else if take 3 (b # s) = [CHR 0xE2, CHR 0x80, CHR 0xA9]
        then [CHR 0x5C, CHR ''u'', CHR ''2'', CHR ''0'', CHR ''2'', CHR ''9''] @ appendString (drop 3 (b # s))
      else take (rune_width (b # s)) (b # s) @ appendString (drop (rune_width (b # s)) (b # s)))"
  by pat_completeness auto
termination
  by (relation "measure length") auto

text \<open>
  The encoder of the map: the entries in the order of their keys, compared as byte
  strings, each key and each value quoted.
\<close>

definition quote :: "string \<Rightarrow> string" where
  "quote s = CHR 0x22 # appendString s @ [CHR 0x22]"

fun members :: "(string \<times> string) list \<Rightarrow> string" where
  "members [] = []"
| "members [(k, v)] = quote k @ CHR '':'' # quote v"
| "members ((k, v) # kvs) = quote k @ CHR '':'' # quote v @ CHR '','' # members kvs"

definition Marshal_map :: "props \<Rightarrow> blob" where
  "Marshal_map m = CHR ''{'' # members (sorted_list_of_fmap m) @ [CHR ''}'']"

text \<open>
  The decoder of a string, from behind its opening quote: the decoded bytes and the
  input behind the closing quote, or \<open>None\<close> for an input the scanner refuses.
  \<open>getu4\<close> reads a six-character escape; \<open>EncodeRune\<close> is \<open>utf8.EncodeRune\<close>. A
  well-formed sequence is decoded and encoded again, which gives the same bytes; a byte
  that starts none becomes U+FFFD, and so does an escaped surrogate without its partner.
\<close>

definition is_space :: "char \<Rightarrow> bool" where
  "is_space c = (c = CHR '' '' \<or> c = CHR 0x09 \<or> c = CHR 0x0D \<or> c = CHR 0x0A)"

definition skip_space :: "string \<Rightarrow> string" where
  "skip_space s = dropWhile is_space s"

definition hexval :: "char \<Rightarrow> nat option" where
  "hexval c =
     (if 0x30 \<le> byte c \<and> byte c \<le> 0x39 then Some (byte c - 0x30)
      else if 0x61 \<le> byte c \<and> byte c \<le> 0x66 then Some (byte c - 0x61 + 10)
      else if 0x41 \<le> byte c \<and> byte c \<le> 0x46 then Some (byte c - 0x41 + 10)
      else None)"

fun getu4 :: "string \<Rightarrow> nat option" where
  "getu4 (e # u # a # b # c # d # _) =
     (if e \<noteq> CHR 0x5C \<or> u \<noteq> CHR ''u'' then None
      else (case (hexval a, hexval b, hexval c, hexval d) of
              (Some w, Some x, Some y, Some z) \<Rightarrow> Some (((w * 16 + x) * 16 + y) * 16 + z)
            | _ \<Rightarrow> None))"
| "getu4 _ = None"

definition EncodeRune :: "nat \<Rightarrow> string" where
  "EncodeRune r =
     (if r < 0x80 then [char_of r]
      else if r < 0x800 then [char_of (0xC0 + r div 0x40), char_of (0x80 + r mod 0x40)]
      else if (0xD800 \<le> r \<and> r < 0xE000) \<or> 0x10FFFF < r then [CHR 0xEF, CHR 0xBF, CHR 0xBD]
      else if r < 0x10000
        then [char_of (0xE0 + r div 0x1000), char_of (0x80 + r div 0x40 mod 0x40),
              char_of (0x80 + r mod 0x40)]
      else [char_of (0xF0 + r div 0x40000), char_of (0x80 + r div 0x1000 mod 0x40),
            char_of (0x80 + r div 0x40 mod 0x40), char_of (0x80 + r mod 0x40)])"

definition unescape :: "char \<Rightarrow> char option" where
  "unescape e =
     (if e = CHR 0x22 \<or> e = CHR 0x5C \<or> e = CHR ''/'' then Some e
      else if e = CHR ''b'' then Some (CHR 0x08)
      else if e = CHR ''f'' then Some (CHR 0x0C)
      else if e = CHR ''n'' then Some (CHR 0x0A)
      else if e = CHR ''r'' then Some (CHR 0x0D)
      else if e = CHR ''t'' then Some (CHR 0x09)
      else None)"

definition emit :: "string \<Rightarrow> (string \<times> string) option \<Rightarrow> (string \<times> string) option" where
  "emit t r = (case r of None \<Rightarrow> None | Some (u, rest) \<Rightarrow> Some (t @ u, rest))"

function unquote :: "string \<Rightarrow> (string \<times> string) option" where
  "unquote [] = None"
| "unquote (c # s) =
     (if c = CHR 0x22 then Some ([], s)
      else if c = CHR 0x5C then
        (if s = [] then None
         else if hd s = CHR ''u'' then
           (case getu4 (c # s) of
              None \<Rightarrow> None
            | Some rr \<Rightarrow>
                if 0xD800 \<le> rr \<and> rr < 0xE000 then
                  (case getu4 (drop 5 s) of
                     None \<Rightarrow> emit [CHR 0xEF, CHR 0xBF, CHR 0xBD] (unquote (drop 5 s))
                   | Some rr1 \<Rightarrow>
                       if rr < 0xDC00 \<and> 0xDC00 \<le> rr1 \<and> rr1 < 0xE000
                       then emit (EncodeRune (0x10000 + (rr - 0xD800) * 0x400 + (rr1 - 0xDC00)))
                              (unquote (drop 11 s))
                       else emit [CHR 0xEF, CHR 0xBF, CHR 0xBD] (unquote (drop 5 s)))
                else emit (EncodeRune rr) (unquote (drop 5 s)))
         else
           (case unescape (hd s) of
              None \<Rightarrow> None
            | Some ch \<Rightarrow> emit [ch] (unquote (tl s))))
      else if byte c < 0x20 then None
      else if byte c < 0x80 then emit [c] (unquote s)
      else if rune_width (c # s) = 0 then emit [CHR 0xEF, CHR 0xBF, CHR 0xBD] (unquote s)
      else emit (take (rune_width (c # s)) (c # s)) (unquote (drop (rune_width (c # s)) (c # s))))"
  by pat_completeness auto
termination
  by (relation "measure length") (auto simp: less_Suc_eq_le)

text \<open>
  The decoder of the document into a nil map variable. \<open>null\<close> leaves the variable nil.
  An object gives a map; a value must be a string, or \<open>null\<close> which stores the empty
  string, and of two entries with one key the later one stays. Anything else is an error
  of the library, a syntax error or a type error: \<open>None\<close>.
\<close>

definition string_or_null :: "string \<Rightarrow> (string \<times> string) option" where
  "string_or_null s =
     (case s of
        [] \<Rightarrow> None
      | c # s1 \<Rightarrow>
          if c = CHR 0x22 then unquote s1
          else if take 4 s = ''null'' then Some ([], drop 4 s)
          else None)"

function object_members :: "props \<Rightarrow> string \<Rightarrow> (props \<times> string) option" where
  "object_members acc s =
     (case skip_space s of
        [] \<Rightarrow> None
      | c # s1 \<Rightarrow>
          (if c \<noteq> CHR 0x22 then None
           else (case unquote s1 of
                   None \<Rightarrow> None
                 | Some (k, s2) \<Rightarrow>
                     (case skip_space s2 of
                        [] \<Rightarrow> None
                      | c2 # s3 \<Rightarrow>
                          (if c2 \<noteq> CHR '':'' then None
                           else (case string_or_null (skip_space s3) of
                                   None \<Rightarrow> None
                                 | Some (v, s4) \<Rightarrow>
                                     (case skip_space s4 of
                                        [] \<Rightarrow> None
                                      | c4 # s5 \<Rightarrow>
                                          (if c4 = CHR '','' then object_members (fmupd k v acc) s5
                                           else if c4 = CHR ''}'' then Some (fmupd k v acc, s5)
                                           else None))))))))"
  by pat_completeness auto
termination
proof (relation "measure (\<lambda>(acc, s). length s)", goal_cases)
  case 1
  show ?case by simp
next
  case (2 acc s c s1 p k s2 c2 s3 q v s4 c4 s5)
  have shorter: "length r < length x" if "unquote x = Some (t, r)" for x t r
    using that
  proof (induction "length x" arbitrary: x t r rule: less_induct)
    case less
    show ?case
    proof (cases x)
      case Nil
      with less.prems show ?thesis by simp
    next
      case (Cons a x')
      have IH: "length r' < Suc (length x')" if "unquote y = Some (t', r')" "length y \<le> length x'"
        for y t' r'
      proof -
        from that(2) Cons have "length y < length x" by simp
        from less.hyps [OF this that(1)] that(2) Cons show ?thesis by simp
      qed
      from less.prems show ?thesis
        unfolding Cons unquote.simps
        by (auto simp: emit_def split: if_splits option.splits dest!: IH)
    qed
  qed
  have skip: "length (skip_space x) \<le> length x" for x
    by (simp add: skip_space_def length_dropWhile_le)
  have "length s5 < length (skip_space s4)" using 2 by simp
  also have "\<dots> \<le> length s4" by (rule skip)
  also have "\<dots> < length (skip_space s3)"
    using 2 by (auto simp: string_or_null_def split: list.splits if_splits dest: shorter)
  also have "\<dots> \<le> length s3" by (rule skip)
  also have "\<dots> < length (skip_space s2)" using 2 by simp
  also have "\<dots> \<le> length s2" by (rule skip)
  also have "\<dots> < length s1" using 2 by (auto dest: shorter)
  also have "\<dots> < length (skip_space s)" using 2 by simp
  also have "\<dots> \<le> length s" by (rule skip)
  finally show ?case by simp
qed

declare object_members.simps [simp del]

definition finish :: "props option \<Rightarrow> string \<Rightarrow> props option option" where
  "finish x r = (if skip_space r = [] then Some x else None)"

definition Unmarshal_map :: "blob \<Rightarrow> props option option" where
  "Unmarshal_map data =
     (case skip_space data of
        [] \<Rightarrow> None
      | c # s \<Rightarrow>
          if c = CHR ''{'' then
            (case skip_space s of
               [] \<Rightarrow> None
             | c1 # s1 \<Rightarrow>
                 (if c1 = CHR ''}'' then finish (Some fmempty) s1
                  else (case object_members fmempty s of
                          None \<Rightarrow> None
                        | Some (m, r) \<Rightarrow> finish (Some m) r)))
          else if take 4 (c # s) = ''null'' then finish None (drop 4 (c # s))
          else None)"

text \<open>The codec of the library: \<open>json.Marshal\<close> has no error for a map of strings.\<close>

definition encoding_json :: codec where
  "encoding_json = \<lparr>Marshal = (\<lambda>m. Some (Marshal_map m)), Unmarshal = Unmarshal_map\<rparr>"

text \<open>A freshly opened in-memory database, as \<open>sql.Open("ql-mem", name)\<close> gives it.\<close>

definition Open :: DB where
  "Open = \<lparr>is_closed = False, has_table = False, has_index = False, rows = []\<rparr>"

subsection \<open>The SQL statements\<close>

text \<open>\<open>CREATE TABLE IF NOT EXISTS dongles(...)\<close>\<close>

definition ql_create_table_if_not_exists :: "DB \<Rightarrow> error + DB" where
  "ql_create_table_if_not_exists s =
     (if has_table s then Inr s else Inr (s\<lparr>has_table := True, rows := []\<rparr>))"

text \<open>
  \<open>CREATE UNIQUE INDEX UQE_dongels on dongles(path)\<close>: the statement has no
  \<open>IF NOT EXISTS\<close>, so it is an error when the index exists.
\<close>

definition ql_create_unique_index :: "DB \<Rightarrow> error + DB" where
  "ql_create_unique_index s =
     (if has_index s then Inl IndexExists
      else if \<not> has_table s then Inl NoTable
      else if \<not> distinct (map path (rows s)) then Inl UniqueIndex
      else Inr (s\<lparr>has_index := True\<rparr>))"

text \<open>
  \<open>INSERT INTO dongles (...) VALUES ($1,...,$7,now(),now())\<close>. The new row is put
  first: ql lists a table newest row first. The two \<open>now()\<close> of the statement are two
  readings of the clock, the arguments \<open>now1\<close> and \<open>now2\<close> of \<open>CreateDongle\<close>.
\<close>

definition ql_insert :: "row \<Rightarrow> DB \<Rightarrow> error + DB" where
  "ql_insert r s =
     (if \<not> has_table s then Inl NoTable
      else if has_index s \<and> path r \<in> set (map path (rows s)) then Inl UniqueIndex
      else Inr (s\<lparr>rows := r # rows s\<rparr>))"

text \<open>
  \<open>UPDATE dongles imei=$1,imsi=$2,path=$3,symlink=$4,tty=$5,properties=$6,
  created_on=$7,updated_on=now(), WHERE path=$3&&imei=$1\<close>. In ql the keyword
  \<open>SET\<close> is optional and an assignment list may end in a comma. The column
  \<open>ati\<close> is not assigned. A matched row keeps its \<open>path\<close>, so the unique index
  is never violated.
\<close>

definition ql_update ::
  "string \<Rightarrow> string \<Rightarrow> string \<Rightarrow> bool \<Rightarrow> int \<Rightarrow> blob option \<Rightarrow> time \<Rightarrow> time \<Rightarrow> DB \<Rightarrow> error + DB" where
  "ql_update a1 a2 a3 a4 a5 a6 a7 now s =
     (if \<not> has_table s then Inl NoTable
      else Inr (s\<lparr>rows :=
        map (\<lambda>r. if path r = a3 \<and> imei r = a1
                  then r\<lparr>imei := a1, imsi := a2, path := a3, symlink := a4, tty := a5,
                         properties := a6, created_on := a7, updated_on := now\<rparr>
                  else r) (rows s)\<rparr>))"

text \<open>\<open>DELETE FROM dongles WHERE imei=$1\<close>\<close>

definition ql_delete :: "string \<Rightarrow> DB \<Rightarrow> error + DB" where
  "ql_delete a1 s =
     (if \<not> has_table s then Inl NoTable
      else Inr (s\<lparr>rows := filter (\<lambda>r. imei r \<noteq> a1) (rows s)\<rparr>))"

text \<open>A query outside a transaction: the rows a \<open>select ... from dongles\<close> ranges over.\<close>

definition ql_from_dongles :: "DB \<Rightarrow> error + row list" where
  "ql_from_dongles db =
     (if is_closed db then Inl Closed
      else if \<not> has_table db then Inl NoTable
      else Inr (rows db))"

text \<open>\<open>min(tty)\<close> over the selected rows: NULL (\<open>None\<close>) when there is none.\<close>

fun ql_min :: "int list \<Rightarrow> int option" where
  "ql_min [] = None"
| "ql_min (x # xs) = (case ql_min xs of None \<Rightarrow> Some x | Some m \<Rightarrow> Some (min x m))"

subsection \<open>Transactions\<close>

text \<open>
  \<open>db.Begin()\<close> gives a transaction and fails on a closed handle, \<open>tx.Exec\<close>
  runs a statement on the transaction's copy of the database, \<open>tx.Rollback()\<close>
  restores the database as it was at \<open>Begin\<close>, and \<open>tx.Commit()\<close> makes the work
  permanent; in memory it does not fail. The \<open>BEGIN TRANSACTION\<close> and \<open>COMMIT\<close>
  inside each SQL text open and close a nested transaction around the one statement and
  add nothing to this.
\<close>

record Tx =
  origin :: DB
  work :: DB

definition Begin :: "DB \<Rightarrow> error + Tx" where
  "Begin db = (if is_closed db then Inl Closed else Inr \<lparr>origin = db, work = db\<rparr>)"

definition Exec :: "(DB \<Rightarrow> error + DB) \<Rightarrow> Tx \<Rightarrow> error + Tx" where
  "Exec stmt tx = (case stmt (work tx) of Inl err \<Rightarrow> Inl err | Inr s \<Rightarrow> Inr (tx\<lparr>work := s\<rparr>))"

definition Rollback :: "Tx \<Rightarrow> DB" where
  "Rollback tx = origin tx"

definition Commit :: "Tx \<Rightarrow> error option \<times> DB" where
  "Commit tx = (None, work tx)"

subsection \<open>Migration\<close>

definition migrationSQL :: "DB \<Rightarrow> error + DB" where
  "migrationSQL s =
     (case ql_create_table_if_not_exists s of
        Inl err \<Rightarrow> Inl err
      | Inr s1 \<Rightarrow> ql_create_unique_index s1)"

text \<open>Every function that writes returns Go's \<open>error\<close> (nil is \<open>None\<close>) and the database it leaves.\<close>

definition Migration :: "DB \<Rightarrow> error option \<times> DB" where
  "Migration db =
     (case Begin db of
        Inl err \<Rightarrow> (Some err, db)
      | Inr tx \<Rightarrow>
          (case Exec migrationSQL tx of
             Inl err \<Rightarrow> (Some err, Rollback tx)
           | Inr tx1 \<Rightarrow> Commit tx1))"

text \<open>
  \<open>dbWIthName\<close>: open, then migrate. \<open>sql.Open("ql-mem", name)\<close> gives the
  database that is open under the name in the process, and a fresh one when there is
  none; the open databases of the process are the first argument, and the second
  component of the result is what the call leaves of them. \<open>DB\<close> is the call with
  the fixed name.
\<close>

definition dbWIthName :: "(string \<rightharpoonup> DB) \<Rightarrow> string \<Rightarrow> (error + DB) \<times> (string \<rightharpoonup> DB)" where
  "dbWIthName opened name =
     (case Migration (case opened name of None \<Rightarrow> Open | Some db0 \<Rightarrow> db0) of
        (Some err, db) \<Rightarrow> (Inl err, opened(name \<mapsto> db))
      | (None, db) \<Rightarrow> (Inr db, opened(name \<mapsto> db)))"

definition DB :: "(string \<rightharpoonup> DB) \<Rightarrow> (error + DB) \<times> (string \<rightharpoonup> DB)" where
  "DB opened = dbWIthName opened ''devices.db''"

subsection \<open>Reading rows\<close>

text \<open>
  The body shared by \<open>GetAllDongles\<close>, \<open>GetDongle\<close> and \<open>GetDongleByIMEI\<close>:
  \<open>Scan\<close> the nine columns into a fresh \<open>Dongle\<close>, then decode the blob unless it
  is nil.
\<close>

definition scan :: "codec \<Rightarrow> row \<Rightarrow> error + Dongle" where
  "scan c r =
     (let d = \<lparr>IMEI = imei r, IMSI = imsi r, Path = path r, IsSymlinked = symlink r,
               TTY = tty r, ATI = ati r, Properties = None,
               CreatedOn = created_on r, UpdatedOn = updated_on r\<rparr>
      in case properties r of
           None \<Rightarrow> Inr d
         | Some prop \<Rightarrow>
             (case Unmarshal c prop of
                None \<Rightarrow> Inl Json
              | Some p \<Rightarrow> Inr (d\<lparr>Properties := p\<rparr>)))"

text \<open>The loop \<open>for rows.Next()\<close> of \<open>GetAllDongles\<close>, with \<open>rst\<close> as accumulator.\<close>

fun scan_rows :: "codec \<Rightarrow> row list \<Rightarrow> Dongle list \<Rightarrow> error + Dongle list" where
  "scan_rows c [] rst = Inr rst"
| "scan_rows c (r # rs) rst =
     (case scan c r of
        Inl err \<Rightarrow> Inl err
      | Inr d \<Rightarrow> scan_rows c rs (rst @ [d]))"

definition GetAllDongles :: "codec \<Rightarrow> DB \<Rightarrow> error + Dongle list" where
  "GetAllDongles c db =
     (case ql_from_dongles db of
        Inl err \<Rightarrow> Inl err
      | Inr rs \<Rightarrow> scan_rows c rs [])"

text \<open>\<open>QueryRow(...).Scan\<close> on a \<open>select * ... LIMIT 1\<close>: the first selected row, or \<open>sql.ErrNoRows\<close>.\<close>

definition QueryRow_scan :: "codec \<Rightarrow> (row \<Rightarrow> bool) \<Rightarrow> DB \<Rightarrow> error + Dongle" where
  "QueryRow_scan c sel db =
     (case ql_from_dongles db of
        Inl err \<Rightarrow> Inl err
      | Inr rs \<Rightarrow>
          (case filter sel rs of
             [] \<Rightarrow> Inl ErrNoRows
           | r # _ \<Rightarrow> scan c r))"

definition GetDongle :: "codec \<Rightarrow> DB \<Rightarrow> string \<Rightarrow> error + Dongle" where
  "GetDongle c db p = QueryRow_scan c (\<lambda>r. path r = p) db"

definition GetDongleByIMEI :: "codec \<Rightarrow> DB \<Rightarrow> string \<Rightarrow> error + Dongle" where
  "GetDongleByIMEI c db i = QueryRow_scan c (\<lambda>r. imei r = i) db"

subsection \<open>GetDistinct\<close>

text \<open>
  The map \<open>s\<close> of \<open>GetDistinct\<close> is an association list with distinct keys. Go
  ranges over a map in no fixed order; the model ranges in the order the keys were first
  stored, and no claim below rests on that order.

  The body of the first loop: when the key is present the slice is extended and stored,
  and then, in either case, the entry is set to the one-element slice.
\<close>

definition group_step :: "(string \<times> Dongle list) list \<Rightarrow> Dongle \<Rightarrow> (string \<times> Dongle list) list" where
  "group_step s d =
     (let s1 = (case map_of s (IMEI d) of
                  Some v \<Rightarrow> AList.update (IMEI d) (v @ [d]) s
                | None \<Rightarrow> s)
      in AList.update (IMEI d) [d] s1)"

text \<open>
  \<open>sort.Sort(v)\<close> with \<open>Less\<close> comparing \<open>TTY\<close>. Go's sort is not stable;
  the model's is. The two agree on the slices \<open>GetDistinct\<close> sorts, which have one
  element each (\<open>groups_shape\<close> below).
\<close>

definition Sort :: "Dongle list \<Rightarrow> Dongle list" where
  "Sort v = sort_key TTY v"

text \<open>The last loop appends \<open>v[0]\<close> of every entry; indexing an empty slice panics.\<close>

datatype 'a outcome = Returns 'a | Panics

fun heads :: "(string \<times> Dongle list) list \<Rightarrow> Dongle list \<Rightarrow> Dongle list outcome" where
  "heads [] out = Returns out"
| "heads ((k, []) # s) out = Panics"
| "heads ((k, d # v) # s) out = heads s (out @ [d])"

definition GetDistinct :: "codec \<Rightarrow> DB \<Rightarrow> (error + Dongle list) outcome" where
  "GetDistinct c db =
     (case GetAllDongles c db of
        Inl err \<Rightarrow> Returns (Inl err)
      | Inr a \<Rightarrow>
          if length a = 0 then Returns (Inr a)
          else
            (let s = foldl group_step [] a;
                 s1 = map (\<lambda>(k, v). (k, Sort v)) s
             in case heads s1 [] of
                  Panics \<Rightarrow> Panics
                | Returns out \<Rightarrow> Returns (Inr out)))"

subsection \<open>Writing rows\<close>

text \<open>The guard \<open>if d.Properties != nil\<close> around \<open>json.Marshal\<close>; a nil \<open>prop\<close> is stored as NULL.\<close>

definition marshal_properties :: "codec \<Rightarrow> props option \<Rightarrow> error + blob option" where
  "marshal_properties c p =
     (case p of
        None \<Rightarrow> Inr None
      | Some m \<Rightarrow>
          (case Marshal c m of
             None \<Rightarrow> Inl Json
           | Some bs \<Rightarrow> Inr (Some bs)))"

definition CreateDongle :: "codec \<Rightarrow> time \<Rightarrow> time \<Rightarrow> DB \<Rightarrow> Dongle \<Rightarrow> error option \<times> DB" where
  "CreateDongle c now1 now2 db d =
     (case marshal_properties c (Properties d) of
        Inl err \<Rightarrow> (Some err, db)
      | Inr prop \<Rightarrow>
          (case Begin db of
             Inl err \<Rightarrow> (Some err, db)
           | Inr tx \<Rightarrow>
               (case Exec (ql_insert \<lparr>imei = IMEI d, imsi = IMSI d, path = Path d,
                                       symlink = IsSymlinked d, tty = TTY d, ati = ATI d,
                                       properties = prop, created_on = now1,
                                       updated_on = now2\<rparr>) tx of
                  Inl err \<Rightarrow> (Some err, Rollback tx)
                | Inr tx1 \<Rightarrow> Commit tx1)))"

definition UpdateDongle :: "codec \<Rightarrow> time \<Rightarrow> DB \<Rightarrow> Dongle \<Rightarrow> error option \<times> DB" where
  "UpdateDongle c now db d =
     (case marshal_properties c (Properties d) of
        Inl err \<Rightarrow> (Some err, db)
      | Inr prop \<Rightarrow>
          (case Begin db of
             Inl err \<Rightarrow> (Some err, db)
           | Inr tx \<Rightarrow>
               (case Exec (ql_update (IMEI d) (IMSI d) (Path d) (IsSymlinked d) (TTY d)
                             prop (CreatedOn d) now) tx of
                  Inl err \<Rightarrow> (Some err, Rollback tx)
                | Inr tx1 \<Rightarrow> Commit tx1)))"

definition RemoveDongle :: "DB \<Rightarrow> Dongle \<Rightarrow> error option \<times> DB" where
  "RemoveDongle db d =
     (case Begin db of
        Inl err \<Rightarrow> (Some err, db)
      | Inr tx \<Rightarrow>
          (case Exec (ql_delete (IMEI d)) tx of
             Inl err \<Rightarrow> (Some err, Rollback tx)
           | Inr tx1 \<Rightarrow> Commit tx1))"

subsection \<open>GetSymlinkCandidate and DongleExists\<close>

text \<open>The verb \<open>%d\<close> of \<open>fmt.Sprintf\<close>: the decimal digits, after a minus sign when negative.\<close>

function digits :: "nat \<Rightarrow> string" where
  "digits n =
     (if n < 10 then [''0123456789'' ! n]
      else digits (n div 10) @ [''0123456789'' ! (n mod 10)])"
  by pat_completeness auto
termination
  by (relation "measure id") auto

declare digits.simps [simp del]

definition Sprintf_d :: "int \<Rightarrow> string" where
  "Sprintf_d i = (if i < 0 then CHR ''-'' # digits (nat (- i)) else digits (nat i))"

text \<open>
  \<open>select min(tty) from dongles where imei=$1\<close> gives one row holding the minimum,
  or NULL when no row is selected; \<open>Scan(&tty)\<close> fails on NULL.
\<close>

definition GetSymlinkCandidate :: "codec \<Rightarrow> DB \<Rightarrow> string \<Rightarrow> error + Dongle" where
  "GetSymlinkCandidate c db i =
     (case ql_from_dongles db of
        Inl err \<Rightarrow> Inl err
      | Inr rs \<Rightarrow>
          (case ql_min (map tty (filter (\<lambda>r. imei r = i) rs)) of
             None \<Rightarrow> Inl ScanNull
           | Some t \<Rightarrow> GetDongle c db (''/dev/ttyUSB'' @ Sprintf_d t)))"

text \<open>
  \<open>select count(*) from dongles where imei=$1&&imsi=$2&&path=$3\<close>. The second
  component of the result is what \<open>log.Error\<close> was given.
\<close>

definition DongleExists :: "DB \<Rightarrow> Dongle \<Rightarrow> bool \<times> error list" where
  "DongleExists db modem =
     (case ql_from_dongles db of
        Inl err \<Rightarrow> (False, [err])
      | Inr rs \<Rightarrow>
          (let count = length (filter (\<lambda>r. imei r = IMEI modem \<and> imsi r = IMSI modem \<and>
                                           path r = Path modem) rs)
           in (count > 0, [])))"

subsection \<open>The canonical port as the specification words it\<close>

text \<open>
  The specification's \<open>GetCanonicalPort\<close> rebuilds the port path from a naming
  convention that is a configuration point: a prefix, followed by the index. This second
  definition follows those words, with the prefix as an argument, for comparison with
  \<open>GetSymlinkCandidate\<close>.
\<close>

definition GetCanonicalPort :: "string \<Rightarrow> codec \<Rightarrow> DB \<Rightarrow> string \<Rightarrow> error + Dongle" where
  "GetCanonicalPort prefix c db physicalID =
     (case ql_from_dongles db of
        Inl err \<Rightarrow> Inl err
      | Inr rs \<Rightarrow>
          (case ql_min (map tty (filter (\<lambda>r. imei r = physicalID) rs)) of
             None \<Rightarrow> Inl ScanNull
           | Some t \<Rightarrow> GetDongle c db (prefix @ Sprintf_d t)))"

subsection \<open>Sample data\<close>

text \<open>The row that \<open>CreateDongle\<close> hands to the \<open>INSERT\<close> statement.\<close>

definition inserted :: "Dongle \<Rightarrow> blob option \<Rightarrow> time \<Rightarrow> time \<Rightarrow> row" where
  "inserted d p now1 now2 =
     \<lparr>imei = IMEI d, imsi = IMSI d, path = Path d, symlink = IsSymlinked d, tty = TTY d,
      ati = ATI d, properties = p, created_on = now1, updated_on = now2\<rparr>"

text \<open>
  A stand-in for encoding/json in the examples. It knows one document, the empty
  object, and is used on the empty map only.
\<close>

definition json0 :: codec where
  "json0 =
     \<lparr>Marshal = (\<lambda>m. if m = fmempty then Some ''{}'' else None),
      Unmarshal = (\<lambda>bs. if bs = ''{}'' then Some (Some fmempty) else None)\<rparr>"

definition row_of :: "string \<Rightarrow> string \<Rightarrow> int \<Rightarrow> blob option \<Rightarrow> time \<Rightarrow> row" where
  "row_of i p t b now =
     \<lparr>imei = i, imsi = ''64101'', path = p, symlink = False, tty = t, ati = ''E303'',
      properties = b, created_on = now, updated_on = now\<rparr>"

definition dongle_of :: "string \<Rightarrow> string \<Rightarrow> int \<Rightarrow> props option \<Rightarrow> time \<Rightarrow> Dongle" where
  "dongle_of i p t m now =
     \<lparr>IMEI = i, IMSI = ''64101'', Path = p, IsSymlinked = False, TTY = t, ATI = ''E303'',
      Properties = m, CreatedOn = now, UpdatedOn = now\<rparr>"

text \<open>A database after \<open>Migration\<close>, holding the given rows.\<close>

definition registry :: "row list \<Rightarrow> DB" where
  "registry rs = \<lparr>is_closed = False, has_table = True, has_index = True, rows = rs\<rparr>"

text \<open>
  The registry of the specification's scenario: device A seen at ports 2 and 0, device B at
  port 1, stored in that order at times 10, 11 and 12.
\<close>

definition scenario :: DB where
  "scenario =
     registry [row_of ''B'' ''/dev/ttyUSB1'' 1 None 12,
               row_of ''A'' ''/dev/ttyUSB0'' 0 None 11,
               row_of ''A'' ''/dev/ttyUSB2'' 2 (Some ''{}'') 10]"


text \<open>
  What \<open>migrationSQL\<close> sets up and every statement keeps: the table and its unique
  index exist together, and under the index no two rows share a path.
\<close>

definition consistent :: "DB \<Rightarrow> bool" where
  "consistent db =
     (has_index db = has_table db \<and> (if has_index db then distinct (map path (rows db)) else rows db = []))"

section \<open>Properties\<close>

subsection \<open>Auxiliary facts\<close>

lemma RemoveDongle_ok:
  "\<not> is_closed db \<Longrightarrow> has_table db \<Longrightarrow>
   RemoveDongle db d = (None, db\<lparr>rows := filter (\<lambda>r. imei r \<noteq> IMEI d) (rows db)\<rparr>)"
  by (simp add: RemoveDongle_def Begin_def Exec_def ql_delete_def Commit_def)

lemma RemoveDongle_closed: "is_closed db \<Longrightarrow> RemoveDongle db d = (Some Closed, db)"
  by (simp add: RemoveDongle_def Begin_def)

lemma RemoveDongle_no_table:
  "\<not> is_closed db \<Longrightarrow> \<not> has_table db \<Longrightarrow> RemoveDongle db d = (Some NoTable, db)"
  by (simp add: RemoveDongle_def Begin_def Exec_def ql_delete_def Rollback_def)

lemma CreateDongle_success:
  assumes "CreateDongle c now1 now2 db d = (None, db1)"
  shows "\<exists>p. marshal_properties c (Properties d) = Inr p
    \<and> \<not> is_closed db \<and> has_table db
    \<and> \<not> (has_index db \<and> Path d \<in> set (map path (rows db)))
    \<and> db1 = db\<lparr>rows := inserted d p now1 now2 # rows db\<rparr>"
  using assms
  by (auto simp: CreateDongle_def Begin_def Exec_def ql_insert_def Commit_def Rollback_def
        inserted_def split: sum.splits if_splits)

lemma CreateDongle_duplicate:
  assumes "marshal_properties c (Properties d) = Inr p"
    and "\<not> is_closed db" and "has_index db" and "has_table db"
    and "Path d \<in> set (map path (rows db))"
  shows "CreateDongle c now1 now2 db d = (Some UniqueIndex, db)"
  using assms
  by (simp add: CreateDongle_def Begin_def Exec_def ql_insert_def Rollback_def)

lemma ql_min_Min: "xs \<noteq> [] \<Longrightarrow> ql_min xs = Some (Min (set xs))"
proof (induction xs)
  case Nil
  then show ?case by simp
next
  case (Cons x xs)
  show ?case
  proof (cases "xs = []")
    case True
    then show ?thesis by simp
  next
    case False
    with Cons.IH show ?thesis by (simp add: Min_insert)
  qed
qed

lemma filter_unique_path:
  "distinct (map path rs) \<Longrightarrow> r \<in> set rs \<Longrightarrow> filter (\<lambda>x. path x = path r) rs = [r]"
proof (induction rs)
  case Nil
  then show ?case by simp
next
  case (Cons a rs)
  show ?case
  proof (cases "a = r")
    case True
    with Cons.prems have "path r \<notin> path ` set rs" by simp
    then have "filter (\<lambda>x. path x = path r) rs = []"
      by (auto simp: filter_empty_conv image_iff)
    with True show ?thesis by simp
  next
    case False
    with Cons.prems have "r \<in> set rs" by simp
    moreover from this Cons.prems have "path a \<noteq> path r" by (auto simp: image_iff)
    ultimately show ?thesis using Cons by simp
  qed
qed

lemma GetDongle_absent:
  "\<not> is_closed db \<Longrightarrow> has_table db \<Longrightarrow> p \<notin> set (map path (rows db)) \<Longrightarrow>
   GetDongle c db p = Inl ErrNoRows"
proof -
  assume a: "\<not> is_closed db" "has_table db" "p \<notin> set (map path (rows db))"
  then have "filter (\<lambda>r. path r = p) (rows db) = []"
    by (auto simp: filter_empty_conv)
  with a show ?thesis by (simp add: GetDongle_def QueryRow_scan_def ql_from_dongles_def)
qed

lemma GetDongle_present:
  "\<not> is_closed db \<Longrightarrow> has_table db \<Longrightarrow> distinct (map path (rows db)) \<Longrightarrow> r \<in> set (rows db) \<Longrightarrow>
   GetDongle c db (path r) = scan c r"
  by (simp add: GetDongle_def QueryRow_scan_def ql_from_dongles_def filter_unique_path)

lemma UpdateDongle_ok:
  assumes "\<not> is_closed db" and "has_table db" and "marshal_properties c (Properties d) = Inr p"
  shows "UpdateDongle c now db d =
    (None, db\<lparr>rows := map (\<lambda>r. if path r = Path d \<and> imei r = IMEI d
                  then r\<lparr>imei := IMEI d, imsi := IMSI d, path := Path d, symlink := IsSymlinked d,
                         tty := TTY d, properties := p, created_on := CreatedOn d,
                         updated_on := now\<rparr>
                  else r) (rows db)\<rparr>)"
  using assms by (simp add: UpdateDongle_def Begin_def Exec_def ql_update_def Commit_def)

lemma Migration_Open: "Migration Open = (None, registry [])"
  by (simp add: Migration_def Begin_def Exec_def migrationSQL_def Commit_def Open_def
      ql_create_table_if_not_exists_def ql_create_unique_index_def registry_def)

text \<open>
  The first \<open>DB()\<close> of a process gives a migrated, empty database; a second one, on the
  same name, finds that database and fails in \<open>Migration\<close>.
\<close>

lemma DB_first_call:
  "DB Map.empty = (Inr (registry []), [''devices.db'' \<mapsto> registry []])"
  by (simp add: DB_def dbWIthName_def Migration_Open)

lemma DB_second_call:
  "DB [''devices.db'' \<mapsto> registry []] = (Inl IndexExists, [''devices.db'' \<mapsto> registry []])"
  by (simp add: DB_def dbWIthName_def Migration_def Begin_def Exec_def migrationSQL_def
      Rollback_def ql_create_table_if_not_exists_def ql_create_unique_index_def registry_def)

lemmas sample_defs = scenario_def registry_def row_of_def dongle_of_def

text \<open>The scenario is what the package's own functions build from a fresh database.\<close>

lemma scenario_built:
  "snd (CreateDongle json0 12 12
     (snd (CreateDongle json0 11 11
        (snd (CreateDongle json0 10 10 (snd (Migration Open))
           (dongle_of ''A'' ''/dev/ttyUSB2'' 2 (Some fmempty) 0)))
        (dongle_of ''A'' ''/dev/ttyUSB0'' 0 None 0)))
     (dongle_of ''B'' ''/dev/ttyUSB1'' 1 None 0)) = scenario"
  by (simp add: Migration_Open CreateDongle_def Begin_def Exec_def Commit_def ql_insert_def
      marshal_properties_def json0_def registry_def dongle_of_def row_of_def scenario_def)


subsection \<open>encoding/json reads back what it wrote of valid UTF-8\<close>

text \<open>
  First an escaped ASCII byte, then a well-formed sequence, then a whole string by
  induction along the encoder, then the entries of an object, then the document.
\<close>

lemma hexval_hex: "n < 16 \<Longrightarrow> hexval (hex n) = Some n"
proof -
  assume "n < 16"
  then consider "n = 0" | "n = 1" | "n = 2" | "n = 3" | "n = 4" | "n = 5" | "n = 6" | "n = 7"
    | "n = 8" | "n = 9" | "n = 10" | "n = 11" | "n = 12" | "n = 13" | "n = 14" | "n = 15"
    by atomize_elim arith
  then show ?thesis
    by cases (simp_all add: hex_def hexval_def byte_def)
qed

lemma byte_less_256: "byte b < 256"
  by (simp add: byte_def)

lemma getu4_escape:
  "getu4 (CHR 0x5C # CHR ''u'' # CHR ''0'' # CHR ''0'' # hex (byte b div 16) # hex (byte b mod 16) # t)
     = Some (byte b)"
proof -
  have zero: "hexval (CHR ''0'') = Some 0" by (simp add: hexval_def byte_def)
  have "byte b div 16 < 16" using byte_less_256 [of b] by simp
  then have hi: "hexval (hex (byte b div 16)) = Some (byte b div 16)" by (rule hexval_hex)
  have lo: "hexval (hex (byte b mod 16)) = Some (byte b mod 16)" by (rule hexval_hex) simp
  show ?thesis by (simp add: zero hi lo)
qed

lemma EncodeRune_ascii: "byte b < 0x80 \<Longrightarrow> EncodeRune (byte b) = [b]"
  by (simp add: EncodeRune_def byte_def)

lemma emit_unquote_Some: "emit t (Some (u, r)) = Some (t @ u, r)"
  by (simp add: emit_def)

lemma unquote_u:
  assumes "getu4 (CHR 0x5C # CHR ''u'' # x) = Some rr" and "\<not> (0xD800 \<le> rr \<and> rr < 0xE000)"
  shows "unquote (CHR 0x5C # CHR ''u'' # x) = emit (EncodeRune rr) (unquote (drop 4 x))"
  using assms by (auto simp del: getu4.simps)

lemma unquote_escape:
  assumes "byte b < 0x80"
  shows "unquote (escape b @ t) = emit [b] (unquote t)"
proof -
  consider (pair) "b = CHR 0x5C \<or> b = CHR 0x22"
    | (short) "b = CHR 0x08 \<or> b = CHR 0x0C \<or> b = CHR 0x0A \<or> b = CHR 0x0D \<or> b = CHR 0x09"
    | (long) "b \<noteq> CHR 0x5C" "b \<noteq> CHR 0x22" "b \<noteq> CHR 0x08" "b \<noteq> CHR 0x0C" "b \<noteq> CHR 0x0A"
        "b \<noteq> CHR 0x0D" "b \<noteq> CHR 0x09"
        "byte b < 0x20 \<or> b = CHR ''<'' \<or> b = CHR ''>'' \<or> b = CHR ''&''"
    | (plain) "b \<noteq> CHR 0x5C" "b \<noteq> CHR 0x22" "b \<noteq> CHR 0x08" "b \<noteq> CHR 0x0C" "b \<noteq> CHR 0x0A"
        "b \<noteq> CHR 0x0D" "b \<noteq> CHR 0x09"
        "\<not> byte b < 0x20" "b \<noteq> CHR ''<''" "b \<noteq> CHR ''>''" "b \<noteq> CHR ''&''"
    by blast
  then show ?thesis
  proof cases
    case pair
    then show ?thesis by (auto simp: escape_def unescape_def)
  next
    case short
    then show ?thesis by (auto simp: escape_def unescape_def)
  next
    case long
    then have "escape b = [CHR 0x5C, CHR ''u'', CHR ''0'', CHR ''0'', hex (byte b div 16), hex (byte b mod 16)]"
      by (simp add: escape_def)
    moreover have "unquote (CHR 0x5C # CHR ''u'' # CHR ''0'' # CHR ''0'' # hex (byte b div 16) # hex (byte b mod 16) # t)
        = emit (EncodeRune (byte b)) (unquote (drop 4 (CHR ''0'' # CHR ''0'' # hex (byte b div 16) # hex (byte b mod 16) # t)))"
      using assms by (intro unquote_u getu4_escape) simp
    ultimately show ?thesis
      using assms by (simp add: EncodeRune_ascii del: unquote.simps)
  next
    case plain
    then have "escape b = [b]" by (simp add: escape_def)
    with plain show ?thesis using assms by simp
  qed
qed

lemma lead_cases: "lead a = 0 \<or> lead a = 2 \<or> lead a = 3 \<or> lead a = 4"
  by (simp add: lead_def)

lemma rune_width_Cons:
  "rune_width (a # s) =
     (if lead a = 0 \<or> Suc (length s) < lead a \<or> \<not> second_ok a (s ! 0)
         \<or> (3 \<le> lead a \<and> \<not> cont (s ! 1)) \<or> (4 \<le> lead a \<and> \<not> cont (s ! 2))
      then 0 else lead a)"
  by (simp add: rune_width_def Let_def)

lemma rune_width_Nil: "rune_width [] = 0"
  by (simp add: rune_width_def)

lemma rune_width_bounds: "rune_width s \<noteq> 0 \<Longrightarrow> 2 \<le> rune_width s \<and> rune_width s \<le> length s"
  using lead_cases [of "hd s"]
  by (cases s) (auto simp: rune_width_Nil rune_width_Cons split: if_splits)

lemma rune_width_lead: "rune_width (b # s) \<noteq> 0 \<Longrightarrow> 0xC2 \<le> byte b"
  by (auto simp: rune_width_Cons lead_def split: if_splits)

lemma rune_width_prefix:
  assumes "rune_width s \<noteq> 0"
  shows "rune_width (take (rune_width s) s @ x) = rune_width s"
proof -
  obtain a s' where s: "s = a # s'"
    using assms by (cases s) (auto simp: rune_width_Nil)
  define n where "n = lead a"
  have w: "rune_width (a # s') = n"
    and facts: "n \<noteq> 0" "n \<le> Suc (length s')" "second_ok a (s' ! 0)"
      "3 \<le> n \<longrightarrow> cont (s' ! 1)" "4 \<le> n \<longrightarrow> cont (s' ! 2)"
    using assms unfolding s n_def by (auto simp: rune_width_Cons split: if_splits)
  from lead_cases [of a] facts(1) have n2: "2 \<le> n" by (auto simp: n_def)
  obtain k where k: "n = Suc k" using facts(1) by (cases n) auto
  have tk: "take n (a # s') @ x = a # (take k s' @ x)" by (simp add: k)
  have nth: "(take k s' @ x) ! i = s' ! i" if "i < k" for i
    using that facts(2) k by (simp add: nth_append)
  have "rune_width (a # (take k s' @ x)) = n"
    using facts n2 k by (auto simp: rune_width_Cons nth n_def [symmetric])
  then show ?thesis by (simp add: s w tk)
qed

lemma EncodeRune_2028: "EncodeRune 0x2028 = [CHR 0xE2, CHR 0x80, CHR 0xA8]"
  by (simp add: EncodeRune_def char_of_eq_iff)

lemma EncodeRune_2029: "EncodeRune 0x2029 = [CHR 0xE2, CHR 0x80, CHR 0xA9]"
  by (simp add: EncodeRune_def char_of_eq_iff)

lemma rune_width_2028:
  "take 3 (b # s) = [CHR 0xE2, CHR 0x80, c] \<Longrightarrow> c = CHR 0xA8 \<or> c = CHR 0xA9 \<Longrightarrow> rune_width (b # s) = 3"
proof -
  assume a: "take 3 (b # s) = [CHR 0xE2, CHR 0x80, c]" and c: "c = CHR 0xA8 \<or> c = CHR 0xA9"
  then obtain t where "b # s = CHR 0xE2 # CHR 0x80 # c # t"
    by (cases s; cases "tl s") (auto simp: take_Suc_conv_app_nth numeral_3_eq_3)
  with c show ?thesis
    by (auto simp: rune_width_Cons lead_def second_ok_def cont_def byte_def)
qed

lemma unquote_literal_rune:
  assumes "rune_width (b # s) \<noteq> 0"
  shows "unquote (take (rune_width (b # s)) (b # s) @ x)
       = emit (take (rune_width (b # s)) (b # s)) (unquote x)"
proof -
  let ?n = "rune_width (b # s)"
  from rune_width_bounds [OF assms] obtain k where k: "?n = Suc k" and len: "?n \<le> length (b # s)"
    by (cases ?n) auto
  have hd: "take ?n (b # s) @ x = b # (take k s @ x)" by (simp add: k)
  have w: "rune_width (b # (take k s @ x)) = ?n"
    using rune_width_prefix [OF assms, of x] by (simp only: hd)
  have high: "0xC2 \<le> byte b" using assms by (rule rune_width_lead)
  then have b: "b \<noteq> CHR 0x22" "b \<noteq> CHR 0x5C" "\<not> byte b < 0x20" "\<not> byte b < 0x80"
    by (auto simp: byte_def)
  have tk: "take ?n (b # (take k s @ x)) = take ?n (b # s)"
    and dr: "drop ?n (b # (take k s @ x)) = x"
    using len by (simp_all add: k)
  have "unquote (b # (take k s @ x))
      = emit (take ?n (b # (take k s @ x))) (unquote (drop ?n (b # (take k s @ x))))"
    using b w assms by (subst unquote.simps) simp
  then show ?thesis by (simp only: hd tk dr)
qed

lemma unquote_appendString:
  "valid_utf8 s \<Longrightarrow> unquote (appendString s @ CHR 0x22 # r) = Some (s, r)"
proof (induction s rule: appendString.induct)
  case 1
  then show ?case by simp
next
  case (2 b s)
  show ?case
  proof (cases "byte b < 0x80")
    case True
    with "2.prems" have "valid_utf8 s" by simp
    with True "2.IH"(1) have "unquote (appendString s @ CHR 0x22 # r) = Some (s, r)" by simp
    with True show ?thesis
      by (simp add: unquote_escape emit_unquote_Some del: unquote.simps)
  next
    case False
    with "2.prems" have w: "rune_width (b # s) \<noteq> 0"
      and v: "valid_utf8 (drop (rune_width (b # s)) (b # s))"
      by (simp_all split: if_splits)
    consider (ls) "take 3 (b # s) = [CHR 0xE2, CHR 0x80, CHR 0xA8]"
      | (ps) "take 3 (b # s) \<noteq> [CHR 0xE2, CHR 0x80, CHR 0xA8]" "take 3 (b # s) = [CHR 0xE2, CHR 0x80, CHR 0xA9]"
      | (other) "take 3 (b # s) \<noteq> [CHR 0xE2, CHR 0x80, CHR 0xA8]" "take 3 (b # s) \<noteq> [CHR 0xE2, CHR 0x80, CHR 0xA9]"
      by blast
    then show ?thesis
    proof cases
      case ls
      define t where "t = drop 3 (b # s)"
      define p where "p = take 3 (b # s)"
      have whole: "p @ t = b # s" by (simp only: p_def t_def append_take_drop_id)
      have p: "p = [CHR 0xE2, CHR 0x80, CHR 0xA8]" using ls by (simp only: p_def)
      then have n: "rune_width (b # s) = 3" unfolding p_def by (rule rune_width_2028) simp
      from "2.IH"(3) [OF False w ls] v n
      have ih: "unquote (appendString t @ CHR 0x22 # r) = Some (t, r)"
        by (simp only: t_def)
      have enc: "appendString (b # s) = [CHR 0x5C, CHR ''u'', CHR ''2'', CHR ''0'', CHR ''2'', CHR ''8''] @ appendString t"
        unfolding t_def using False w ls by (subst appendString.simps) (simp only: if_False if_True, simp)
      have "getu4 (CHR 0x5C # CHR ''u'' # ''2028'' @ appendString t @ CHR 0x22 # r) = Some 0x2028"
        by (simp add: hexval_def byte_def)
      then have "unquote (CHR 0x5C # CHR ''u'' # ''2028'' @ appendString t @ CHR 0x22 # r)
          = emit (EncodeRune 0x2028) (unquote (drop 4 (''2028'' @ appendString t @ CHR 0x22 # r)))"
        by (rule unquote_u) simp
      then have "unquote (appendString (b # s) @ CHR 0x22 # r) = Some (p @ t, r)"
        by (simp add: enc ih emit_unquote_Some EncodeRune_2028 p del: unquote.simps appendString.simps)
      then show ?thesis by (simp only: whole)
    next
      case ps
      define t where "t = drop 3 (b # s)"
      define p where "p = take 3 (b # s)"
      have whole: "p @ t = b # s" by (simp only: p_def t_def append_take_drop_id)
      have p: "p = [CHR 0xE2, CHR 0x80, CHR 0xA9]" using ps by (simp only: p_def)
      then have n: "rune_width (b # s) = 3" unfolding p_def by (rule rune_width_2028) simp
      from "2.IH"(4) [OF False w ps] v n
      have ih: "unquote (appendString t @ CHR 0x22 # r) = Some (t, r)"
        by (simp only: t_def)
      have enc: "appendString (b # s) = [CHR 0x5C, CHR ''u'', CHR ''2'', CHR ''0'', CHR ''2'', CHR ''9''] @ appendString t"
        unfolding t_def using False w ps by (subst appendString.simps) (simp only: if_False if_True, simp)
      have "getu4 (CHR 0x5C # CHR ''u'' # ''2029'' @ appendString t @ CHR 0x22 # r) = Some 0x2029"
        by (simp add: hexval_def byte_def)
      then have "unquote (CHR 0x5C # CHR ''u'' # ''2029'' @ appendString t @ CHR 0x22 # r)
          = emit (EncodeRune 0x2029) (unquote (drop 4 (''2029'' @ appendString t @ CHR 0x22 # r)))"
        by (rule unquote_u) simp
      then have "unquote (appendString (b # s) @ CHR 0x22 # r) = Some (p @ t, r)"
        by (simp add: enc ih emit_unquote_Some EncodeRune_2029 p del: unquote.simps appendString.simps)
      then show ?thesis by (simp only: whole)
    next
      case other
      from "2.IH"(5) [OF False w other] v
      have ih: "unquote (appendString (drop (rune_width (b # s)) (b # s)) @ CHR 0x22 # r)
          = Some (drop (rune_width (b # s)) (b # s), r)"
        by simp
      have enc: "appendString (b # s) = take (rune_width (b # s)) (b # s) @ appendString (drop (rune_width (b # s)) (b # s))"
        using False w other by (subst appendString.simps) (simp only: if_False)
      have "unquote (appendString (b # s) @ CHR 0x22 # r)
          = Some (take (rune_width (b # s)) (b # s) @ drop (rune_width (b # s)) (b # s), r)"
        by (simp only: enc append_assoc unquote_literal_rune [OF w] ih emit_unquote_Some)
      then show ?thesis by (simp only: append_take_drop_id)
    qed
  qed
qed

lemma skip_space_quote [simp]: "skip_space (CHR 0x22 # s) = CHR 0x22 # s"
  by (simp add: skip_space_def is_space_def)

lemma skip_space_punct [simp]:
  "skip_space (CHR '':'' # s) = CHR '':'' # s"
  "skip_space (CHR '','' # s) = CHR '','' # s"
  "skip_space (CHR ''{'' # s) = CHR ''{'' # s"
  "skip_space (CHR ''}'' # s) = CHR ''}'' # s"
  "skip_space [] = []"
  by (simp_all add: skip_space_def is_space_def)

lemma skip_space_quoted [simp]: "skip_space (quote v @ r) = quote v @ r"
  by (simp add: quote_def)

lemma string_or_null_quote:
  "valid_utf8 v \<Longrightarrow> string_or_null (quote v @ r) = Some (v, r)"
  by (simp add: string_or_null_def quote_def unquote_appendString del: unquote.simps)

lemma object_members_entry:
  assumes "valid_utf8 k" and "valid_utf8 v"
  shows "object_members acc (quote k @ CHR '':'' # quote v @ c # r) =
     (if c = CHR '','' then object_members (fmupd k v acc) r
      else if c = CHR ''}'' then Some (fmupd k v acc, r)
      else object_members acc (quote k @ CHR '':'' # quote v @ c # r))"
proof -
  have key: "unquote (appendString k @ CHR 0x22 # CHR '':'' # quote v @ c # r)
      = Some (k, CHR '':'' # quote v @ c # r)"
    using assms(1) by (rule unquote_appendString)
  have val: "string_or_null (quote v @ c # r) = Some (v, c # r)"
    using assms(2) by (rule string_or_null_quote)
  have start: "quote k @ CHR '':'' # quote v @ c # r
      = CHR 0x22 # appendString k @ CHR 0x22 # CHR '':'' # quote v @ c # r"
    by (simp add: quote_def)
  show ?thesis
  proof (cases "c = CHR '','' \<or> c = CHR ''}''")
    case True
    then show ?thesis
      by (subst object_members.simps, subst start)
        (auto simp add: key val simp del: unquote.simps)
  next
    case False
    then show ?thesis by simp
  qed
qed

lemma object_members_members:
  "kvs \<noteq> [] \<Longrightarrow> list_all (\<lambda>(k, v). valid_utf8 k \<and> valid_utf8 v) kvs \<Longrightarrow>
   object_members acc (members kvs @ CHR ''}'' # r)
     = Some (foldl (\<lambda>a (k, v). fmupd k v a) acc kvs, r)"
proof (induction kvs arbitrary: acc rule: members.induct)
  case 1
  then show ?case by simp
next
  case (2 k v)
  then show ?case by (simp add: object_members_entry)
next
  case (3 k v p kvs)
  from "3.prems" have valid: "valid_utf8 k" "valid_utf8 v"
    and rest: "list_all (\<lambda>(k, v). valid_utf8 k \<and> valid_utf8 v) (p # kvs)"
    by simp_all
  have "object_members acc (members ((k, v) # p # kvs) @ CHR ''}'' # r)
      = object_members (fmupd k v acc) (members (p # kvs) @ CHR ''}'' # r)"
    using object_members_entry [OF valid, of acc "CHR '',''" "members (p # kvs) @ CHR ''}'' # r"]
    by simp
  also have "\<dots> = Some (foldl (\<lambda>a (k, v). fmupd k v a) (fmupd k v acc) (p # kvs), r)"
    using rest by (intro "3.IH") simp_all
  finally show ?case by simp
qed

lemma foldl_fmupd_lookup:
  "distinct (map fst kvs) \<Longrightarrow>
   fmlookup (foldl (\<lambda>a (k, v). fmupd k v a) acc kvs) x
     = (case map_of kvs x of Some v \<Rightarrow> Some v | None \<Rightarrow> fmlookup acc x)"
proof (induction kvs arbitrary: acc)
  case Nil
  then show ?case by simp
next
  case (Cons p kvs)
  obtain k v where p: "p = (k, v)" by (cases p)
  from Cons.prems have "map_of kvs k = None"
    by (simp add: p map_of_eq_None_iff)
  with Cons show ?case by (auto simp: p split: option.splits)
qed

lemma distinct_sorted_list_of_fmap: "distinct (map fst (sorted_list_of_fmap m))"
  by (simp add: sorted_list_of_fmap_def comp_def sorted_list_of_fset.rep_eq)

lemma foldl_sorted_list_of_fmap:
  "foldl (\<lambda>a (k, v). fmupd k v a) fmempty (sorted_list_of_fmap m) = m"
  by (rule fmap_ext)
    (simp add: foldl_fmupd_lookup distinct_sorted_list_of_fmap split: option.splits)

lemma members_starts_with_quote:
  "kvs \<noteq> [] \<Longrightarrow> \<exists>t. members kvs @ x = CHR 0x22 # t"
  by (induction kvs rule: members.induct) (simp_all add: quote_def)

lemma json_round_trip:
  assumes "fmpred (\<lambda>k v. valid_utf8 k \<and> valid_utf8 v) m"
  shows "Unmarshal_map (Marshal_map m) = Some (Some m)"
proof (cases "sorted_list_of_fmap m = []")
  case True
  then have "foldl (\<lambda>a (k, v). fmupd k v a) fmempty (sorted_list_of_fmap m) = fmempty" by simp
  then have "m = fmempty" by (simp only: foldl_sorted_list_of_fmap)
  with True show ?thesis
    by (simp add: Unmarshal_map_def Marshal_map_def finish_def)
next
  case False
  let ?kvs = "sorted_list_of_fmap m"
  have valid: "list_all (\<lambda>(k, v). valid_utf8 k \<and> valid_utf8 v) ?kvs"
    using assms by (simp add: curry_def)
  from members_starts_with_quote [OF False, of "[CHR ''}'']"]
  obtain t where t: "members ?kvs @ [CHR ''}''] = CHR 0x22 # t" by blast
  have "object_members fmempty (members ?kvs @ [CHR ''}'']) = Some (m, [])"
    using object_members_members [OF False valid, of fmempty "[]"]
    by (simp only: foldl_sorted_list_of_fmap)
  then show ?thesis
    by (simp add: Unmarshal_map_def Marshal_map_def finish_def t)
qed

lemma EncodeRune_fffd: "EncodeRune 0xFFFD = [CHR 0xEF, CHR 0xBF, CHR 0xBD]"
  by (simp add: EncodeRune_def char_of_eq_iff)

text \<open>The library replaces a byte that is not UTF-8: the map read back is another map.\<close>

lemma json_coerces_invalid_utf8:
  "Unmarshal_map (Marshal_map (fmupd ''k'' [CHR 0xFF] fmempty))
     = Some (Some (fmupd ''k'' [CHR 0xEF, CHR 0xBF, CHR 0xBD] fmempty))"
  by (subst object_members.simps [abs_def] Unmarshal_map_def)
    (simp add: Marshal_map_def object_members.simps sorted_list_of_fmap_def
      sorted_list_of_fset.rep_eq quote_def byte_def rune_width_def lead_def string_or_null_def
      hexval_def EncodeRune_fffd emit_def finish_def escape_def unescape_def)

subsection \<open>What GetDistinct computes\<close>

text \<open>
  The slice extended in the first loop is overwritten at once, so a step of the loop is
  a plain update with a one-element slice. Every group therefore has one element, the
  binding of its IMEI that \<open>GetAllDongles\<close> listed last; sorting such a group changes
  nothing, whatever the sorting algorithm, and \<open>v[0]\<close> never panics. The result has
  one binding for every IMEI, in the order the map is ranged over.
\<close>

lemma group_step_overwrites: "group_step s d = AList.update (IMEI d) [d] s"
  by (simp add: group_step_def split: option.splits)

lemma groups_distinct: "distinct (map fst s) \<Longrightarrow> distinct (map fst (foldl group_step s a))"
  by (induction a arbitrary: s) (simp_all add: group_step_overwrites AList.distinct_update)

lemma groups_dom: "fst ` set (foldl group_step s a) = fst ` set s \<union> IMEI ` set a"
  by (induction a arbitrary: s) (auto simp: group_step_overwrites AList.dom_update)

lemma groups_map_of:
  "map_of (foldl group_step s a) k =
     (if k \<in> IMEI ` set a then Some [last (filter (\<lambda>x. IMEI x = k) a)] else map_of s k)"
proof (induction a rule: rev_induct)
  case Nil
  then show ?case by simp
next
  case (snoc d a)
  then show ?case
    by (auto simp: group_step_overwrites AList.update_conv')
qed

lemma heads_singletons:
  "heads (map (\<lambda>k. (k, [f k])) ks) out = Returns (out @ map f ks)"
  by (induction ks arbitrary: out) simp_all

lemma groups_shape:
  "foldl group_step [] a =
     map (\<lambda>k. (k, [last (filter (\<lambda>x. IMEI x = k) a)])) (map fst (foldl group_step [] a))"
proof -
  let ?s = "foldl group_step [] a"
  have d: "distinct (map fst ?s)" by (simp add: groups_distinct)
  have "p = (fst p, [last (filter (\<lambda>x. IMEI x = fst p) a)])" if "p \<in> set ?s" for p
  proof -
    from that d have "map_of ?s (fst p) = Some (snd p)" by simp
    moreover from that have "fst p \<in> IMEI ` set a" using groups_dom [of "[]" a] by auto
    ultimately have "snd p = [last (filter (\<lambda>x. IMEI x = fst p) a)]"
      by (simp add: groups_map_of)
    then show ?thesis by (cases p) simp
  qed
  then have "map (\<lambda>p. p) ?s = map (\<lambda>p. (fst p, [last (filter (\<lambda>x. IMEI x = fst p) a)])) ?s"
    by (intro map_cong) auto
  then show ?thesis by (simp add: comp_def)
qed

lemma GetDistinct_last_listed:
  assumes "GetAllDongles c db = Inr a"
  shows "distinct (map fst (foldl group_step [] a))
       \<and> set (map fst (foldl group_step [] a)) = IMEI ` set a
       \<and> GetDistinct c db =
           Returns (Inr (map (\<lambda>k. last (filter (\<lambda>x. IMEI x = k) a)) (map fst (foldl group_step [] a))))"
proof -
  let ?ks = "map fst (foldl group_step [] a)"
  let ?rep = "\<lambda>k. last (filter (\<lambda>x. IMEI x = k) a)"
  have "map (\<lambda>(k, v). (k, Sort v)) (foldl group_step [] a)
      = map (\<lambda>(k, v). (k, Sort v)) (map (\<lambda>k. (k, [?rep k])) ?ks)"
    by (rule arg_cong [OF groups_shape])
  also have "\<dots> = map (\<lambda>k. (k, [?rep k])) ?ks"
    by (simp add: Sort_def comp_def)
  finally have "heads (map (\<lambda>(k, v). (k, Sort v)) (foldl group_step [] a)) []
      = heads (map (\<lambda>k. (k, [?rep k])) ?ks) []"
    by (simp only:)
  then have "heads (map (\<lambda>(k, v). (k, Sort v)) (foldl group_step [] a)) [] = Returns (map ?rep ?ks)"
    by (simp only: heads_singletons append_Nil)
  then have "GetDistinct c db = Returns (Inr (map ?rep ?ks))"
    using assms by (cases a) (simp_all add: GetDistinct_def)
  moreover have "set ?ks = IMEI ` set a" using groups_dom [of "[]" a] by simp
  ultimately show ?thesis by (simp add: groups_distinct)
qed


subsection \<open>The schema invariant\<close>

text \<open>
  A fresh database is consistent, and every function that writes leaves a consistent
  database consistent, whether it succeeds or fails.
\<close>

lemma consistent_Open: "consistent Open"
  by (simp add: consistent_def Open_def)

lemma consistent_Migration: "consistent db \<Longrightarrow> consistent (snd (Migration db))"
  by (auto simp: consistent_def Migration_def Begin_def Exec_def migrationSQL_def Commit_def
      Rollback_def ql_create_table_if_not_exists_def ql_create_unique_index_def
      split: sum.splits if_splits)

lemma consistent_CreateDongle: "consistent db \<Longrightarrow> consistent (snd (CreateDongle c now1 now2 db d))"
  by (auto simp: consistent_def CreateDongle_def Begin_def Exec_def Commit_def
      Rollback_def ql_insert_def split: sum.splits if_splits)

lemma update_keeps_paths:
  "map path (map (\<lambda>r. if path r = a3 \<and> imei r = a1
                  then r\<lparr>imei := a1, imsi := a2, path := a3, symlink := a4, tty := a5,
                         properties := a6, created_on := a7, updated_on := now\<rparr>
                  else r) rs) = map path rs"
  by (induction rs) auto

lemma consistent_UpdateDongle: "consistent db \<Longrightarrow> consistent (snd (UpdateDongle c now db d))"
  by (auto simp: consistent_def UpdateDongle_def Begin_def Exec_def Commit_def
      Rollback_def ql_update_def update_keeps_paths simp del: map_map split: sum.splits if_splits)

lemma consistent_RemoveDongle: "consistent db \<Longrightarrow> consistent (snd (RemoveDongle db d))"
  by (auto simp: consistent_def RemoveDongle_def Begin_def Exec_def Commit_def
      Rollback_def ql_delete_def distinct_map_filter split: sum.splits if_splits)

subsection \<open>The claims\<close>

text \<open>
  C1 does not hold of the code. The first loop of \<open>GetDistinct\<close> overwrites the
  entry of an IMEI with the one-element slice of the binding at hand, so every group holds
  the binding listed last, and that one is returned: with A listed at port 0 and then at
  port 2 the representative of A is the binding at port 2, and in the other order the
  one at port 0.
\<close>

theorem GetDistinct_keeps_last_listed_binding:
  "GetDistinct json0 (registry [row_of ''A'' ''/dev/ttyUSB0'' 0 None 11,
                                row_of ''A'' ''/dev/ttyUSB2'' 2 None 10])
     = Returns (Inr [dongle_of ''A'' ''/dev/ttyUSB2'' 2 None 10])
   \<and> GetDistinct json0 (registry [row_of ''A'' ''/dev/ttyUSB2'' 2 None 10,
                                  row_of ''A'' ''/dev/ttyUSB0'' 0 None 11])
     = Returns (Inr [dongle_of ''A'' ''/dev/ttyUSB0'' 0 None 11])"
  by (simp add: GetDistinct_def GetAllDongles_def ql_from_dongles_def scan_def group_step_def
      Sort_def registry_def row_of_def dongle_of_def)

text \<open>
  C2, as amended. On a usable database \<open>GetSymlinkCandidate\<close> takes the least
  \<open>tty\<close> among the rows of the given IMEI, appends its decimal form to the fixed
  prefix \<open>/dev/ttyUSB\<close>, and returns what \<open>GetDongle\<close> finds at that path, in one
  attempt. It fails with an error of class \<open>NotFound\<close> when the IMEI has no row, and
  so does \<open>GetDongle\<close> when no row has the path; where paths are unique
  \<open>GetDongle\<close> returns the row stored at the path, decoded.
\<close>

theorem GetSymlinkCandidate_lowest_tty_under_ttyUSB:
  assumes "\<not> is_closed db" and "has_table db"
  shows "(i \<notin> imei ` set (rows db) \<longrightarrow>
            GetSymlinkCandidate c db i = Inl ScanNull \<and> failure_of ScanNull = NotFound)
       \<and> (i \<in> imei ` set (rows db) \<longrightarrow>
            GetSymlinkCandidate c db i =
              GetDongle c db (''/dev/ttyUSB'' @ Sprintf_d (Min (tty ` {r \<in> set (rows db). imei r = i}))))
       \<and> (p \<notin> set (map path (rows db)) \<longrightarrow>
            GetDongle c db p = Inl ErrNoRows \<and> failure_of ErrNoRows = NotFound)
       \<and> (distinct (map path (rows db)) \<and> r \<in> set (rows db) \<longrightarrow>
            GetDongle c db (path r) = scan c r)"
proof -
  let ?sel = "filter (\<lambda>r. imei r = i) (rows db)"
  have set_sel: "set (map tty ?sel) = tty ` {r \<in> set (rows db). imei r = i}"
    by auto
  have none: "GetSymlinkCandidate c db i = Inl ScanNull" if "i \<notin> imei ` set (rows db)"
  proof -
    from that have "?sel = []" by (auto simp: filter_empty_conv)
    with assms show ?thesis by (simp add: GetSymlinkCandidate_def ql_from_dongles_def)
  qed
  have some: "GetSymlinkCandidate c db i =
      GetDongle c db (''/dev/ttyUSB'' @ Sprintf_d (Min (tty ` {r \<in> set (rows db). imei r = i})))"
    if "i \<in> imei ` set (rows db)"
  proof -
    from that have "map tty ?sel \<noteq> []" by (auto simp: filter_empty_conv)
    then have "ql_min (map tty ?sel) = Some (Min (set (map tty ?sel)))" by (rule ql_min_Min)
    then have "ql_min (map tty ?sel) = Some (Min (tty ` {r \<in> set (rows db). imei r = i}))"
      by (simp only: set_sel)
    with assms show ?thesis by (simp add: GetSymlinkCandidate_def ql_from_dongles_def)
  qed
  show ?thesis
    using none some assms by (simp add: GetDongle_absent GetDongle_present)
qed

theorem GetSymlinkCandidate_lowest_tty_under_ttyUSB_witness:
  "\<not> is_closed scenario \<and> has_table scenario
   \<and> GetSymlinkCandidate json0 scenario ''A'' = Inr (dongle_of ''A'' ''/dev/ttyUSB0'' 0 None 11)
   \<and> GetSymlinkCandidate json0 scenario ''C'' = Inl ScanNull
   \<and> GetDongle json0 scenario ''/dev/ttyUSB7'' = Inl ErrNoRows"
proof -
  let ?r = "row_of ''A'' ''/dev/ttyUSB0'' 0 None 11"
  have usable: "\<not> is_closed scenario" "has_table scenario"
    by (simp_all add: sample_defs)
  have sel: "{r \<in> set (rows scenario). imei r = ''A''}
      = {?r, row_of ''A'' ''/dev/ttyUSB2'' 2 (Some ''{}'') 10}"
    by (auto simp: sample_defs)
  have least: "Min (tty ` {r \<in> set (rows scenario). imei r = ''A''}) = 0"
    by (simp add: sel) (simp add: row_of_def)
  have name: "''/dev/ttyUSB'' @ Sprintf_d 0 = path ?r"
    by (simp add: Sprintf_d_def digits.simps [of 0] row_of_def)
  have decoded: "scan json0 ?r = Inr (dongle_of ''A'' ''/dev/ttyUSB0'' 0 None 11)"
    by (simp add: scan_def sample_defs)
  have facts:
    "''A'' \<in> imei ` set (rows scenario)" "''C'' \<notin> imei ` set (rows scenario)"
    "''/dev/ttyUSB7'' \<notin> set (map path (rows scenario))"
    "distinct (map path (rows scenario))" "?r \<in> set (rows scenario)"
    by (simp_all add: sample_defs)
  note known = GetSymlinkCandidate_lowest_tty_under_ttyUSB
    [OF usable, of "''A''" json0 "''/dev/ttyUSB7''" ?r]
  note unknown = GetSymlinkCandidate_lowest_tty_under_ttyUSB
    [OF usable, of "''C''" json0 "''/dev/ttyUSB7''" ?r]
  from known facts(1) have "GetSymlinkCandidate json0 scenario ''A'' =
      GetDongle json0 scenario
        (''/dev/ttyUSB'' @ Sprintf_d (Min (tty ` {r \<in> set (rows scenario). imei r = ''A''})))"
    by blast
  then have "GetSymlinkCandidate json0 scenario ''A'' = GetDongle json0 scenario (path ?r)"
    by (simp only: least name)
  moreover from known facts(4,5) have "GetDongle json0 scenario (path ?r) = scan json0 ?r"
    by blast
  ultimately have first: "GetSymlinkCandidate json0 scenario ''A''
      = Inr (dongle_of ''A'' ''/dev/ttyUSB0'' 0 None 11)"
    by (simp only: decoded)
  from unknown facts(2) have second: "GetSymlinkCandidate json0 scenario ''C'' = Inl ScanNull"
    by blast
  from known facts(3) have third: "GetDongle json0 scenario ''/dev/ttyUSB7'' = Inl ErrNoRows"
    by blast
  from usable first second third show ?thesis by blast
qed

text \<open>
  C2 as stated fails: the prefix is not configurable. On a host that names its ports
  \<open>/dev/ttyACM\<close><index>, the procedure of the claim returns the binding at
  \<open>/dev/ttyACM0\<close>; \<open>GetSymlinkCandidate\<close> looks at \<open>/dev/ttyUSB0\<close> and finds
  nothing.
\<close>

theorem GetSymlinkCandidate_configurable_prefix_counterexample:
  "GetSymlinkCandidate json0 (registry [row_of ''A'' ''/dev/ttyACM0'' 0 None 7]) ''A''
     \<noteq> GetCanonicalPort ''/dev/ttyACM'' json0 (registry [row_of ''A'' ''/dev/ttyACM0'' 0 None 7]) ''A''"
  by (simp add: GetSymlinkCandidate_def GetCanonicalPort_def GetDongle_def QueryRow_scan_def
        ql_from_dongles_def registry_def row_of_def Sprintf_d_def digits.simps [of 0] scan_def)

text \<open>
  C3. In a database with the unique index, once \<open>CreateDongle\<close> has stored \<open>b1\<close>,
  storing a \<open>b2\<close> of another IMEI at the same path fails with the engine's
  unique-index error, of class \<open>ConstraintViolation\<close>, and leaves the database as it
  was before the attempt. (encoding/json accepts every \<open>map[string]string\<close>; that is
  the last assumption.)
\<close>

theorem CreateDongle_second_insert_at_path_rejected:
  assumes "has_index db"
    and "CreateDongle c t1 u1 db b1 = (None, db1)"
    and "Path b2 = Path b1" and "IMEI b2 \<noteq> IMEI b1"
    and "marshal_properties c (Properties b2) = Inr p2"
  shows "CreateDongle c t2 u2 db1 b2 = (Some UniqueIndex, db1)
         \<and> failure_of UniqueIndex = ConstraintViolation"
proof -
  from CreateDongle_success [OF assms(2)]
  obtain p1 where ok: "\<not> is_closed db" "has_table db"
    and db1: "db1 = db\<lparr>rows := inserted b1 p1 t1 u1 # rows db\<rparr>"
    by blast
  have "Path b2 \<in> set (map path (rows db1))"
    using assms(3) by (simp add: db1 inserted_def)
  moreover have "\<not> is_closed db1" "has_index db1" "has_table db1"
    using ok assms(1) by (simp_all add: db1)
  ultimately have "CreateDongle c t2 u2 db1 b2 = (Some UniqueIndex, db1)"
    using assms(5) by (simp add: CreateDongle_duplicate)
  then show ?thesis by simp
qed

theorem CreateDongle_second_insert_at_path_rejected_witness:
  "has_index (registry [])
   \<and> CreateDongle json0 10 10 (registry []) (dongle_of ''A'' ''/dev/ttyUSB2'' 2 (Some fmempty) 0)
       = (None, registry [row_of ''A'' ''/dev/ttyUSB2'' 2 (Some ''{}'') 10])
   \<and> CreateDongle json0 11 12 (registry [row_of ''A'' ''/dev/ttyUSB2'' 2 (Some ''{}'') 10])
         (dongle_of ''B'' ''/dev/ttyUSB2'' 2 None 0)
       = (Some UniqueIndex, registry [row_of ''A'' ''/dev/ttyUSB2'' 2 (Some ''{}'') 10])"
proof -
  have idx: "has_index (registry [])" by (simp add: registry_def)
  have first: "CreateDongle json0 10 10 (registry []) (dongle_of ''A'' ''/dev/ttyUSB2'' 2 (Some fmempty) 0)
       = (None, registry [row_of ''A'' ''/dev/ttyUSB2'' 2 (Some ''{}'') 10])"
    by (simp add: CreateDongle_def Begin_def Exec_def Commit_def ql_insert_def
        marshal_properties_def json0_def sample_defs)
  have enc: "marshal_properties json0 (Properties (dongle_of ''B'' ''/dev/ttyUSB2'' 2 None 0)) = Inr None"
    by (simp add: marshal_properties_def dongle_of_def)
  have same: "Path (dongle_of ''B'' ''/dev/ttyUSB2'' 2 None 0)
      = Path (dongle_of ''A'' ''/dev/ttyUSB2'' 2 (Some fmempty) 0)"
    and other: "IMEI (dongle_of ''B'' ''/dev/ttyUSB2'' 2 None 0)
      \<noteq> IMEI (dongle_of ''A'' ''/dev/ttyUSB2'' 2 (Some fmempty) 0)"
    by (simp_all add: dongle_of_def)
  from CreateDongle_second_insert_at_path_rejected [OF idx first same other enc, of 11 12]
  show ?thesis using idx first by simp
qed

text \<open>
  C4, as amended. In a database with the unique index, after \<open>CreateDongle\<close> has stored
  a \<open>b\<close> whose \<open>Properties\<close> is nil, or a map whose keys and values are valid UTF-8,
  \<open>GetDongle\<close> at the path of \<open>b\<close> returns \<open>b\<close> with its two time stamps set
  to the two clock readings of the insert: in particular the same \<open>Properties\<close>, nil for
  nil and the same map for a map, the empty map included. The codec is the library's.
\<close>

theorem CreateDongle_GetDongle_round_trip:
  assumes "has_index db"
    and "CreateDongle encoding_json t1 t2 db b = (None, db1)"
    and "\<And>m. Properties b = Some m \<Longrightarrow> fmpred (\<lambda>k v. valid_utf8 k \<and> valid_utf8 v) m"
  shows "GetDongle encoding_json db1 (Path b) = Inr (b\<lparr>CreatedOn := t1, UpdatedOn := t2\<rparr>)"
proof -
  from CreateDongle_success [OF assms(2)]
  obtain p where m: "marshal_properties encoding_json (Properties b) = Inr p"
    and ok: "\<not> is_closed db" "has_table db"
    and db1: "db1 = db\<lparr>rows := inserted b p t1 t2 # rows db\<rparr>"
    by blast
  have sel: "GetDongle encoding_json db1 (Path b) = scan encoding_json (inserted b p t1 t2)"
    using ok by (simp add: GetDongle_def QueryRow_scan_def ql_from_dongles_def db1 inserted_def)
  show ?thesis
  proof (cases "Properties b")
    case None
    with m have "p = None" by (simp add: marshal_properties_def)
    with None show ?thesis by (simp add: sel scan_def inserted_def)
  next
    case (Some mp)
    with m have p: "p = Some (Marshal_map mp)"
      by (simp add: marshal_properties_def encoding_json_def)
    from Some assms(3) have "Unmarshal_map (Marshal_map mp) = Some (Some mp)"
      by (intro json_round_trip) simp
    with Some p have "scan encoding_json (inserted b p t1 t2) = Inr (b\<lparr>CreatedOn := t1, UpdatedOn := t2\<rparr>)"
      by (simp add: scan_def inserted_def encoding_json_def)
    then show ?thesis by (simp only: sel)
  qed
qed

theorem CreateDongle_GetDongle_round_trip_witness:
  "has_index (registry [])
   \<and> fst (CreateDongle encoding_json 10 11 (registry [])
        (dongle_of ''A'' ''/dev/ttyUSB2'' 2
           (Some (fmupd ''vendor'' (''E303 <3G> caf'' @ [CHR 0xC3, CHR 0xA9, CHR 0x22]) fmempty)) 0)) = None
   \<and> GetDongle encoding_json (snd (CreateDongle encoding_json 10 11 (registry [])
        (dongle_of ''A'' ''/dev/ttyUSB2'' 2
           (Some (fmupd ''vendor'' (''E303 <3G> caf'' @ [CHR 0xC3, CHR 0xA9, CHR 0x22]) fmempty)) 0)))
        ''/dev/ttyUSB2''
     = Inr ((dongle_of ''A'' ''/dev/ttyUSB2'' 2
           (Some (fmupd ''vendor'' (''E303 <3G> caf'' @ [CHR 0xC3, CHR 0xA9, CHR 0x22]) fmempty)) 0)
         \<lparr>CreatedOn := 10, UpdatedOn := 11\<rparr>)
   \<and> GetDongle encoding_json (snd (CreateDongle encoding_json 12 13 (registry [])
        (dongle_of ''A'' ''/dev/ttyUSB0'' 0 None 0))) ''/dev/ttyUSB0''
     = Inr ((dongle_of ''A'' ''/dev/ttyUSB0'' 0 None 0)\<lparr>CreatedOn := 12, UpdatedOn := 13\<rparr>)"
proof -
  let ?m = "fmupd ''vendor'' (''E303 <3G> caf'' @ [CHR 0xC3, CHR 0xA9, CHR 0x22]) fmempty"
  let ?b = "dongle_of ''A'' ''/dev/ttyUSB2'' 2 (Some ?m) 0"
  let ?n = "dongle_of ''A'' ''/dev/ttyUSB0'' 0 None 0"
  have idx: "has_index (registry [])" by (simp add: registry_def)
  have ok_b: "fst (CreateDongle encoding_json 10 11 (registry []) ?b) = None"
    and ok_n: "fst (CreateDongle encoding_json 12 13 (registry []) ?n) = None"
    by (simp_all add: CreateDongle_def Begin_def Exec_def Commit_def ql_insert_def
        marshal_properties_def encoding_json_def registry_def dongle_of_def)
  then have ins_b: "CreateDongle encoding_json 10 11 (registry []) ?b
       = (None, snd (CreateDongle encoding_json 10 11 (registry []) ?b))"
    and ins_n: "CreateDongle encoding_json 12 13 (registry []) ?n
       = (None, snd (CreateDongle encoding_json 12 13 (registry []) ?n))"
    by (simp_all add: prod_eq_iff)
  have "valid_utf8 ''vendor''" "valid_utf8 (''E303 <3G> caf'' @ [CHR 0xC3, CHR 0xA9, CHR 0x22])"
    by (simp_all add: byte_def rune_width_def lead_def second_ok_def)
  then have "fmpred (\<lambda>k v. valid_utf8 k \<and> valid_utf8 v) ?m"
    by (intro fmpred_upd fmpred_empty conjI)
  then have valid_b: "fmpred (\<lambda>k v. valid_utf8 k \<and> valid_utf8 v) m" if "Properties ?b = Some m" for m
    using that by (simp add: dongle_of_def)
  have valid_n: "fmpred (\<lambda>k v. valid_utf8 k \<and> valid_utf8 v) m" if "Properties ?n = Some m" for m
    using that by (simp add: dongle_of_def)
  have path_b: "Path ?b = ''/dev/ttyUSB2''" and path_n: "Path ?n = ''/dev/ttyUSB0''"
    by (simp_all add: dongle_of_def)
  from CreateDongle_GetDongle_round_trip [OF idx ins_b valid_b]
    CreateDongle_GetDongle_round_trip [OF idx ins_n valid_n]
  show ?thesis using idx ok_b by (simp only: path_b path_n simp_thms)
qed

text \<open>
  C4 as stated fails: of a map with a value that is not valid UTF-8, here the single
  byte FF, the insert succeeds and the binding read back holds another map, with U+FFFD
  in its place.
\<close>

theorem CreateDongle_GetDongle_round_trip_counterexample:
  "fst (CreateDongle encoding_json 10 11 (registry [])
        (dongle_of ''A'' ''/dev/ttyUSB2'' 2 (Some (fmupd ''k'' [CHR 0xFF] fmempty)) 0)) = None
   \<and> GetDongle encoding_json (snd (CreateDongle encoding_json 10 11 (registry [])
        (dongle_of ''A'' ''/dev/ttyUSB2'' 2 (Some (fmupd ''k'' [CHR 0xFF] fmempty)) 0))) ''/dev/ttyUSB2''
     = Inr ((dongle_of ''A'' ''/dev/ttyUSB2'' 2 (Some (fmupd ''k'' [CHR 0xFF] fmempty)) 0)
         \<lparr>Properties := Some (fmupd ''k'' [CHR 0xEF, CHR 0xBF, CHR 0xBD] fmempty),
          CreatedOn := 10, UpdatedOn := 11\<rparr>)
   \<and> Some (fmupd ''k'' [CHR 0xEF, CHR 0xBF, CHR 0xBD] fmempty)
     \<noteq> Properties (dongle_of ''A'' ''/dev/ttyUSB2'' 2 (Some (fmupd ''k'' [CHR 0xFF] fmempty)) 0)"
proof -
  have differ: "fmupd ''k'' [CHR 0xEF, CHR 0xBF, CHR 0xBD] fmempty \<noteq> fmupd ''k'' [CHR 0xFF] (fmempty :: props)"
  proof
    assume "fmupd ''k'' [CHR 0xEF, CHR 0xBF, CHR 0xBD] fmempty = fmupd ''k'' [CHR 0xFF] (fmempty :: props)"
    then have "fmlookup (fmupd ''k'' [CHR 0xEF, CHR 0xBF, CHR 0xBD] (fmempty :: props)) ''k''
        = fmlookup (fmupd ''k'' [CHR 0xFF] (fmempty :: props)) ''k''"
      by (rule arg_cong)
    then show False by simp
  qed
  show ?thesis
    using differ
    by (simp add: CreateDongle_def Begin_def Exec_def Commit_def ql_insert_def
        marshal_properties_def encoding_json_def registry_def dongle_of_def GetDongle_def
        QueryRow_scan_def ql_from_dongles_def scan_def json_coerces_invalid_utf8)
qed

text \<open>
  C5. On a usable database \<open>DongleExists\<close> is true exactly when some row has the
  IMEI, the IMSI and the path of its argument, and nothing is logged. When the query
  fails (closed handle, or no table) it returns false, and the error goes to the log and
  nowhere else.
\<close>

theorem DongleExists_iff_triple_stored:
  "(\<not> is_closed db \<and> has_table db \<longrightarrow>
      DongleExists db modem =
        ((\<exists>r \<in> set (rows db). imei r = IMEI modem \<and> imsi r = IMSI modem \<and> path r = Path modem), []))
   \<and> (is_closed db \<or> \<not> has_table db \<longrightarrow>
      (\<exists>err. ql_from_dongles db = Inl err \<and> DongleExists db modem = (False, [err])))"
  by (auto simp: DongleExists_def ql_from_dongles_def filter_empty_conv)

theorem DongleExists_iff_triple_stored_witness:
  "DongleExists scenario (dongle_of ''A'' ''/dev/ttyUSB0'' 0 None 0) = (True, [])
   \<and> DongleExists scenario (dongle_of ''A'' ''/dev/ttyUSB1'' 1 None 0) = (False, [])
   \<and> DongleExists Open (dongle_of ''A'' ''/dev/ttyUSB0'' 0 None 0) = (False, [NoTable])
   \<and> DongleExists (scenario\<lparr>is_closed := True\<rparr>) (dongle_of ''A'' ''/dev/ttyUSB0'' 0 None 0)
       = (False, [Closed])"
  using DongleExists_iff_triple_stored [of scenario "dongle_of ''A'' ''/dev/ttyUSB0'' 0 None 0"]
    DongleExists_iff_triple_stored [of scenario "dongle_of ''A'' ''/dev/ttyUSB1'' 1 None 0"]
    DongleExists_iff_triple_stored [of Open "dongle_of ''A'' ''/dev/ttyUSB0'' 0 None 0"]
    DongleExists_iff_triple_stored [of "scenario\<lparr>is_closed := True\<rparr>"
      "dongle_of ''A'' ''/dev/ttyUSB0'' 0 None 0"]
  by (simp add: sample_defs Open_def ql_from_dongles_def)

text \<open>
  C6 does not hold of the code. \<open>Migration\<close> succeeds on a fresh database, and a
  second call fails: \<open>CREATE TABLE\<close> carries \<open>IF NOT EXISTS\<close>, \<open>CREATE UNIQUE
  INDEX\<close> does not, and the index is there. The failed call is rolled back and leaves
  the database as it was.
\<close>

theorem Migration_second_call_fails:
  "Migration Open = (None, registry [])
   \<and> Migration (registry []) = (Some IndexExists, registry [])"
  by (simp add: Migration_def Begin_def Exec_def migrationSQL_def Commit_def Rollback_def Open_def
      ql_create_table_if_not_exists_def ql_create_unique_index_def registry_def)

text \<open>
  C7, as amended. On a usable database \<open>UpdateDongle\<close> succeeds, changes nothing but
  rows, and leaves every row that does not have both the IMEI and the path of its argument
  as it was. In a row that has both it writes IMSI, symlink flag, tty and properties from
  the argument, sets \<open>updated_on\<close> to the current time, and sets \<open>created_on\<close> to
  the argument's \<open>CreatedOn\<close>: the stored value survives when the caller hands it
  back, and only then.
\<close>

theorem UpdateDongle_rewrites_matched_rows:
  assumes "\<not> is_closed db" and "has_table db" and "marshal_properties c (Properties d) = Inr p"
  shows "fst (UpdateDongle c now db d) = None
     \<and> (snd (UpdateDongle c now db d))\<lparr>rows := rows db\<rparr> = db
     \<and> list_all2 (\<lambda>r r'. if imei r = IMEI d \<and> path r = Path d
                          then imei r' = IMEI d \<and> path r' = Path d \<and> imsi r' = IMSI d \<and>
                               symlink r' = IsSymlinked d \<and> tty r' = TTY d \<and> properties r' = p \<and>
                               created_on r' = CreatedOn d \<and> updated_on r' = now
                          else r' = r)
         (rows db) (rows (snd (UpdateDongle c now db d)))"
  by (simp add: UpdateDongle_ok [OF assms] list_all2_map2 list_all2_same)

theorem UpdateDongle_rewrites_matched_rows_witness:
  "\<not> is_closed scenario \<and> has_table scenario
   \<and> fst (UpdateDongle json0 20 scenario
        \<lparr>IMEI = ''A'', IMSI = ''99999'', Path = ''/dev/ttyUSB2'', IsSymlinked = True, TTY = 2,
          ATI = ''K3765'', Properties = None, CreatedOn = 10, UpdatedOn = 0\<rparr>) = None
   \<and> map (\<lambda>r. (path r, imsi r, created_on r, updated_on r))
        (rows (snd (UpdateDongle json0 20 scenario
        \<lparr>IMEI = ''A'', IMSI = ''99999'', Path = ''/dev/ttyUSB2'', IsSymlinked = True, TTY = 2,
          ATI = ''K3765'', Properties = None, CreatedOn = 10, UpdatedOn = 0\<rparr>)))
     = [(''/dev/ttyUSB1'', ''64101'', 12, 12), (''/dev/ttyUSB0'', ''64101'', 11, 11),
        (''/dev/ttyUSB2'', ''99999'', 10, 20)]"
proof -
  let ?d = "\<lparr>IMEI = ''A'', IMSI = ''99999'', Path = ''/dev/ttyUSB2'', IsSymlinked = True, TTY = 2,
          ATI = ''K3765'', Properties = None, CreatedOn = 10, UpdatedOn = 0\<rparr>"
  have usable: "\<not> is_closed scenario" "has_table scenario"
    by (simp_all add: sample_defs)
  have enc: "marshal_properties json0 (Properties ?d) = Inr None"
    by (simp add: marshal_properties_def)
  note t = UpdateDongle_rewrites_matched_rows [OF usable enc, of 20]
  from t have ok: "fst (UpdateDongle json0 20 scenario ?d) = None"
    by blast
  from t have "list_all2 (\<lambda>r r'. if imei r = IMEI ?d \<and> path r = Path ?d
                          then imei r' = IMEI ?d \<and> path r' = Path ?d \<and> imsi r' = IMSI ?d \<and>
                               symlink r' = IsSymlinked ?d \<and> tty r' = TTY ?d \<and> properties r' = None \<and>
                               created_on r' = CreatedOn ?d \<and> updated_on r' = 20
                          else r' = r)
         (rows scenario) (rows (snd (UpdateDongle json0 20 scenario ?d)))"
    by blast
  then have "map (\<lambda>r. (path r, imsi r, created_on r, updated_on r))
        (rows (snd (UpdateDongle json0 20 scenario ?d)))
     = [(''/dev/ttyUSB1'', ''64101'', 12, 12), (''/dev/ttyUSB0'', ''64101'', 11, 11),
        (''/dev/ttyUSB2'', ''99999'', 10, 20)]"
    by (auto simp: sample_defs list_all2_Cons1)
  with usable ok show ?thesis by blast
qed

text \<open>
  C7 as stated fails: a row created at time 11 and updated from a \<open>Dongle\<close> whose
  \<open>CreatedOn\<close> is 0 no longer has its \<open>created_on\<close>.
\<close>

theorem UpdateDongle_CreatedOn_counterexample:
  "map created_on (rows (snd (UpdateDongle json0 20
       (registry [row_of ''A'' ''/dev/ttyUSB0'' 0 None 11])
       (dongle_of ''A'' ''/dev/ttyUSB0'' 0 None 0))))
   \<noteq> map created_on (rows (registry [row_of ''A'' ''/dev/ttyUSB0'' 0 None 11]))"
  by (simp add: UpdateDongle_def Begin_def Exec_def ql_update_def Commit_def
      marshal_properties_def registry_def row_of_def dongle_of_def)

text \<open>
  C8. On a usable database \<open>RemoveDongle\<close> succeeds and leaves exactly the rows of
  other IMEIs, whatever their paths; when no row has the IMEI the database is unchanged;
  and on any database a second call returns what the first returned and leaves what the
  first left.
\<close>

theorem RemoveDongle_all_ports_idempotent:
  "(\<not> is_closed db \<and> has_table db \<longrightarrow>
      RemoveDongle db d = (None, db\<lparr>rows := filter (\<lambda>r. imei r \<noteq> IMEI d) (rows db)\<rparr>))
   \<and> (\<not> is_closed db \<and> has_table db \<and> IMEI d \<notin> set (map imei (rows db)) \<longrightarrow>
      RemoveDongle db d = (None, db))
   \<and> RemoveDongle (snd (RemoveDongle db d)) d = RemoveDongle db d"
proof -
  have none: "filter (\<lambda>r. imei r \<noteq> IMEI d) (rows db) = rows db"
    if "IMEI d \<notin> set (map imei (rows db))"
    using that by (auto simp: filter_id_conv image_iff)
  have twice: "RemoveDongle (snd (RemoveDongle db d)) d = RemoveDongle db d"
  proof (cases "is_closed db")
    case True
    then show ?thesis by (simp add: RemoveDongle_closed)
  next
    case usable: False
    show ?thesis
    proof (cases "has_table db")
      case True
      with usable show ?thesis by (simp add: RemoveDongle_ok)
    next
      case False
      with usable show ?thesis by (simp add: RemoveDongle_no_table)
    qed
  qed
  show ?thesis using none twice by (simp add: RemoveDongle_ok)
qed

theorem RemoveDongle_all_ports_idempotent_witness:
  "RemoveDongle scenario (dongle_of ''A'' ''/dev/ttyUSB5'' 5 None 0)
     = (None, registry [row_of ''B'' ''/dev/ttyUSB1'' 1 None 12])
   \<and> RemoveDongle scenario (dongle_of ''C'' ''/dev/ttyUSB0'' 0 None 0) = (None, scenario)
   \<and> RemoveDongle (snd (RemoveDongle scenario (dongle_of ''A'' ''/dev/ttyUSB5'' 5 None 0)))
        (dongle_of ''A'' ''/dev/ttyUSB5'' 5 None 0)
     = RemoveDongle scenario (dongle_of ''A'' ''/dev/ttyUSB5'' 5 None 0)"
proof -
  let ?a = "dongle_of ''A'' ''/dev/ttyUSB5'' 5 None 0"
  let ?c = "dongle_of ''C'' ''/dev/ttyUSB0'' 0 None 0"
  note known = RemoveDongle_all_ports_idempotent [of scenario ?a]
  note unknown = RemoveDongle_all_ports_idempotent [of scenario ?c]
  have usable: "\<not> is_closed scenario \<and> has_table scenario"
    by (simp add: sample_defs)
  have absent: "IMEI ?c \<notin> set (map imei (rows scenario))"
    by (simp add: sample_defs)
  have left: "scenario\<lparr>rows := filter (\<lambda>r. imei r \<noteq> IMEI ?a) (rows scenario)\<rparr>
      = registry [row_of ''B'' ''/dev/ttyUSB1'' 1 None 12]"
    by (simp add: sample_defs)
  from known usable have "RemoveDongle scenario ?a
      = (None, scenario\<lparr>rows := filter (\<lambda>r. imei r \<noteq> IMEI ?a) (rows scenario)\<rparr>)"
    by blast
  then have first: "RemoveDongle scenario ?a = (None, registry [row_of ''B'' ''/dev/ttyUSB1'' 1 None 12])"
    by (simp only: left)
  from unknown usable absent have second: "RemoveDongle scenario ?c = (None, scenario)"
    by blast
  from known have third: "RemoveDongle (snd (RemoveDongle scenario ?a)) ?a = RemoveDongle scenario ?a"
    by blast
  from first second third show ?thesis by blast
qed

text \<open>
  C9. On a usable database with no rows \<open>GetDistinct\<close> returns the empty list and
  no error, by the test on \<open>len(a)\<close> that precedes the grouping.
\<close>

theorem GetDistinct_empty_store:
  assumes "\<not> is_closed db" and "has_table db" and "rows db = []"
  shows "GetDistinct c db = Returns (Inr [])"
  using assms by (simp add: GetDistinct_def GetAllDongles_def ql_from_dongles_def)

theorem GetDistinct_empty_store_witness:
  "\<not> is_closed (registry []) \<and> has_table (registry []) \<and> rows (registry []) = []
   \<and> GetDistinct json0 (registry []) = Returns (Inr [])"
  using GetDistinct_empty_store [of "registry []" json0]
  by (simp add: registry_def)

text \<open>
  C10. \<open>RemoveDongle\<close> reads nothing of its argument but the IMEI: two arguments
  with the same IMEI give the same error and the same database.
\<close>

theorem RemoveDongle_depends_on_IMEI_only:
  "IMEI d1 = IMEI d2 \<Longrightarrow> RemoveDongle db d1 = RemoveDongle db d2"
  by (simp add: RemoveDongle_def split: sum.splits)

theorem RemoveDongle_depends_on_IMEI_only_witness:
  "IMEI (dongle_of ''A'' ''/dev/ttyUSB0'' 0 None 0)
     = IMEI \<lparr>IMEI = ''A'', IMSI = ''99999'', Path = ''/dev/ttyUSB2'', IsSymlinked = True, TTY = 2,
             ATI = ''K3765'', Properties = Some fmempty, CreatedOn = 3, UpdatedOn = 4\<rparr>
   \<and> RemoveDongle scenario (dongle_of ''A'' ''/dev/ttyUSB0'' 0 None 0)
     = RemoveDongle scenario
         \<lparr>IMEI = ''A'', IMSI = ''99999'', Path = ''/dev/ttyUSB2'', IsSymlinked = True, TTY = 2,
          ATI = ''K3765'', Properties = Some fmempty, CreatedOn = 3, UpdatedOn = 4\<rparr>"
proof -
  have same: "IMEI (dongle_of ''A'' ''/dev/ttyUSB0'' 0 None 0)
     = IMEI \<lparr>IMEI = ''A'', IMSI = ''99999'', Path = ''/dev/ttyUSB2'', IsSymlinked = True, TTY = 2,
             ATI = ''K3765'', Properties = Some fmempty, CreatedOn = 3, UpdatedOn = 4\<rparr>"
    by (simp add: dongle_of_def)
  from RemoveDongle_depends_on_IMEI_only [OF same, of scenario] same
  show ?thesis by blast
qed

end
